theory Spec2Isabelle
  imports Main "HOL-Library.AList"
begin

section \<open>Data model of \<open>cogs5e/models/character.py\<close>\<close>

text \<open>
  The exceptions the resource code of \<open>Character\<close> can raise. \<open>NameError\<close> is Python's own
  error for a name that is bound nowhere: the module uses \<open>NoReset\<close> without importing it
  and \<open>set_consumable\<close> uses a variable \<open>counter\<close> it never binds. \<open>KeyError\<close> is a
  subscript on a missing dictionary key.
\<close>

datatype error =
    ConsumableNotFound
  | CounterOutOfBounds
  | InvalidArgument string
  | InvalidSpellLevel
  | OutdatedSheet
  | NameError string
  | KeyError

text \<open>Values of the stat-variable table: numbers or text, printed with \<open>str\<close>.\<close>

datatype pyval = PInt int | PStr string

text \<open>
  A custom counter is a dictionary with the keys \<open>value\<close>, \<open>max\<close>, \<open>min\<close>, \<open>reset\<close>,
  \<open>type\<close>, \<open>live\<close>; \<open>None\<close> stands for a key that is absent (or holds \<open>None\<close>). Bounds
  are kept as the text that \<open>evaluate_cvar\<close> reads.
\<close>

record counter =
  cc_value :: int
  cc_max :: "string option"
  cc_min :: "string option"
  cc_reset :: "string option"
  cc_type :: "string option"
  cc_live :: "string option"

text \<open>One level of \<open>character['consumables']['spellslots']\<close>: the keys the code reads.\<close>

record slot =
  sl_value :: int
  sl_min :: int

text \<open>\<open>character['spellbook']\<close>: the per-level maxima and the spell attack bonus.\<close>

record spellbook_data =
  sb_spellslots :: "int \<rightharpoonup> int"
  sb_attackBonus :: "int option"

record DeathSaves =
  successes :: int
  fails :: int

text \<open>
  The part of a \<open>Character\<close> the resource code touches. \<open>custom\<close> is an association list
  because the sweeps iterate the dictionary in insertion order. \<open>options\<close> keeps the
  truth value of each setting, the only thing the rest handlers read.
  \<open>live_integration\<close> tells whether \<open>_live_integration\<close> is set.
\<close>

record character =
  hp :: int
  max_hp :: int
  temp_hp :: int
  death_saves :: DeathSaves
  cvars :: "string \<rightharpoonup> string"
  stat_cvars :: "(string \<rightharpoonup> pyval) option"
  prof_bonus :: int
  spellbook :: "spellbook_data option"
  spellslots :: "(int \<rightharpoonup> slot) option"
  custom :: "(string \<times> counter) list"
  options :: "string \<rightharpoonup> bool"
  live_integration :: bool

text \<open>
  A call either returns a value or raises; both leave a character behind, since the
  methods mutate \<open>self\<close> before they fail.
\<close>

datatype 'a outcome = Return 'a character | Raises error character

fun state_of :: "'a outcome \<Rightarrow> character" where
  "state_of (Return x s) = s"
| "state_of (Raises e s) = s"

fun returned :: "'a outcome \<Rightarrow> bool" where
  "returned (Return x s) = True"
| "returned (Raises e s) = False"

fun raised :: "'a outcome \<Rightarrow> error option" where
  "raised (Return x s) = None"
| "raised (Raises e s) = Some e"

fun result_of :: "'a outcome \<Rightarrow> 'a option" where
  "result_of (Return x s) = Some x"
| "result_of (Raises e s) = None"

text \<open>Sequencing: an exception of the first call ends the method.\<close>

fun and_then :: "'a outcome \<Rightarrow> ('a \<Rightarrow> character \<Rightarrow> 'b outcome) \<Rightarrow> 'b outcome" where
  "and_then (Return x s) f = f x s"
| "and_then (Raises e s) f = Raises e s"

section \<open>Text helpers of Python\<close>

text \<open>\<open>str.strip(chars)\<close>: drops leading and trailing characters of the given set.\<close>

definition strip_chars :: "string \<Rightarrow> string \<Rightarrow> string" where
  "strip_chars cs s =
     rev (dropWhile (\<lambda>c. c \<in> set cs) (rev (dropWhile (\<lambda>c. c \<in> set cs) s)))"

text \<open>The characters \<open>str.strip()\<close> removes, among the first 256 code points.\<close>

definition whitespace :: string where
  "whitespace = map char_of
     [9::int, 10, 11, 12, 13, 28, 29, 30, 31, 32, 133, 160]"

definition strip :: "string \<Rightarrow> string" where
  "strip s = strip_chars whitespace s"

text \<open>The operator characters of the pattern \<open>([-+*/().<>=])\<close>.\<close>

definition ops :: string where
  "ops = ''-+*/().<>=''"

text \<open>
  \<open>re.split(ops, s)\<close> with a capturing group: the text between operators and the
  operators themselves, in order; the pieces of text may be empty.
\<close>

fun re_split :: "string \<Rightarrow> string \<Rightarrow> string list" where
  "re_split acc [] = [rev acc]"
| "re_split acc (c # cs) =
     (if c \<in> set ops then rev acc # [c] # re_split [] cs
      else re_split (c # acc) cs)"

text \<open>\<open>str\<close> of an integer, in decimal.\<close>

definition digit_char :: "int \<Rightarrow> char" where
  "digit_char d = char_of (48 + d)"

function str_digits :: "int \<Rightarrow> string" where
  "str_digits n =
     (if n < 10 then [digit_char n] else str_digits (n div 10) @ [digit_char (n mod 10)])"
  by pat_completeness auto
termination
  by (relation "measure nat") auto

declare str_digits.simps [simp del]

definition str_int :: "int \<Rightarrow> string" where
  "str_int i = (if i < 0 then CHR ''-'' # str_digits (- i) else str_digits i)"

fun py_str :: "pyval \<Rightarrow> string" where
  "py_str (PInt i) = str_int i"
| "py_str (PStr s) = s"

text \<open>Truth value of an optional string: \<open>None\<close> and the empty string are false.\<close>

fun truthy :: "string option \<Rightarrow> bool" where
  "truthy None = False"
| "truthy (Some s) = (s \<noteq> [])"

text \<open>\<open>str(x)\<close> of an optional text: \<open>None\<close> prints as its name.\<close>

fun str_opt :: "string option \<Rightarrow> string" where
  "str_opt None = ''None''"
| "str_opt (Some s) = s"

section \<open>Expression resolution\<close>

definition get_spell_ab :: "character \<Rightarrow> error + int" where
  "get_spell_ab s =
     (case spellbook s of
        None \<Rightarrow> Inl OutdatedSheet
      | Some sb \<Rightarrow> Inr (case sb_attackBonus sb of None \<Rightarrow> 0 | Some ab \<Rightarrow> ab))"

definition get_prof_bonus :: "character \<Rightarrow> int" where
  "get_prof_bonus s = prof_bonus s"

text \<open>
  One substitution pass of \<open>evaluate_cvar\<close>: every piece is stripped, looked up, and
  followed by a blank.
\<close>

definition substitute :: "(string \<rightharpoonup> string) \<Rightarrow> string \<Rightarrow> string" where
  "substitute tab str =
     concat (map (\<lambda>substr. let temp = strip substr in
                    (case tab temp of None \<Rightarrow> temp | Some v \<Rightarrow> v) @ '' '')
                 (re_split [] str))"

text \<open>
  \<open>evaluate_cvar\<close>. The dice evaluator \<open>roll\<close> of \<open>cogs5e.funcs.dice\<close> is not part of the
  source file; it is the parameter \<open>roll\<close>, the total it gives for the final text.
  The entry \<open>spell\<close> is written into the stat-variable table on every call; the write
  stays in the character when the table is stored there.
\<close>

definition evaluate_cvar :: "(string \<Rightarrow> int) \<Rightarrow> character \<Rightarrow> string \<Rightarrow> int outcome" where
  "evaluate_cvar roll s varstr =
     (let varstr = strip_chars ''<>{}'' varstr in
      case get_spell_ab s of
        Inl e \<Rightarrow> Raises e s
      | Inr ab \<Rightarrow>
          let stat_vars = (case stat_cvars s of None \<Rightarrow> Map.empty | Some m \<Rightarrow> m)
                            (''spell'' \<mapsto> PInt (ab - get_prof_bonus s));
              s1 = (case stat_cvars s of None \<Rightarrow> s
                    | Some m \<Rightarrow> s\<lparr>stat_cvars := Some stat_vars\<rparr>);
              tempout = substitute (cvars s) varstr;
              out = substitute (map_option py_str \<circ> stat_vars) tempout
          in Return (roll out) s1)"

section \<open>Custom counters\<close>

definition get_consumable :: "character \<Rightarrow> string \<Rightarrow> error + counter" where
  "get_consumable s name =
     (case map_of (custom s) name of
        None \<Rightarrow> Inl ConsumableNotFound
      | Some c \<Rightarrow> Inr c)"

definition get_consumable_value :: "character \<Rightarrow> string \<Rightarrow> error + int" where
  "get_consumable_value s name =
     (case get_consumable s name of Inl e \<Rightarrow> Inl e | Inr c \<Rightarrow> Inr (cc_value c))"

text \<open>The default bounds of \<open>set_consumable\<close>: \<open>str(-(2 ** 32))\<close> and \<open>str(2 ** 32 - 1)\<close>.\<close>

definition default_min :: string where
  "default_min = str_int (- (2 ^ 32))"

definition default_max :: string where
  "default_max = str_int (2 ^ 32 - 1)"

definition min_text :: "counter \<Rightarrow> string" where
  "min_text c = (case cc_min c of None \<Rightarrow> default_min | Some m \<Rightarrow> m)"

definition max_text :: "counter \<Rightarrow> string" where
  "max_text c = (case cc_max c of None \<Rightarrow> default_max | Some m \<Rightarrow> m)"

text \<open>The store \<open>custom[name]['value'] = v\<close>, on the association list.\<close>

definition store_value :: "string \<Rightarrow> int \<Rightarrow> (string \<times> counter) list \<Rightarrow> (string \<times> counter) list" where
  "store_value name v cs =
     map (\<lambda>(k, c'). if k = name then (k, c'\<lparr>cc_value := v\<rparr>) else (k, c')) cs"

text \<open>
  \<open>set_consumable\<close>. After the store, a counter with a \<open>live\<close> id on a character with a
  live integration reaches \<open>sync_consumable(counter)\<close>, where \<open>counter\<close> is unbound.
\<close>

definition set_consumable ::
  "(string \<Rightarrow> int) \<Rightarrow> character \<Rightarrow> string \<Rightarrow> int \<Rightarrow> bool \<Rightarrow> unit outcome" where
  "set_consumable roll s name newValue strict =
     (case map_of (custom s) name of
        None \<Rightarrow> Raises ConsumableNotFound s
      | Some c \<Rightarrow>
          and_then (evaluate_cvar roll s (min_text c)) (\<lambda>mn s1.
          and_then (evaluate_cvar roll s1 (max_text c)) (\<lambda>mx s2.
            if strict \<and> \<not> (mn \<le> newValue \<and> newValue \<le> mx)
            then Raises CounterOutOfBounds s2
            else
              let v = (if strict then newValue else min (max mn newValue) mx);
                  s3 = s2\<lparr>custom := store_value name v (custom s2)\<rparr>
              in if truthy (cc_live c) \<and> live_integration s3
                 then Raises (NameError ''counter'') s3
                 else Return () s3)))"

text \<open>
  \<open>create_consumable\<close>, with the keyword arguments \<open>maxValue\<close>, \<open>minValue\<close>, \<open>reset\<close>,
  \<open>displayType\<close> and \<open>live\<close>; an argument that is not passed is \<open>None\<close>. The checks on
  the bounds run only when both bounds are passed; \<open>finish_create\<close> is the rest of the
  method, from the reset-without-maximum check on.
\<close>

definition finish_create ::
  "(string \<Rightarrow> int) \<Rightarrow> string \<Rightarrow> string option \<Rightarrow> string option \<Rightarrow> string option \<Rightarrow>
     string option \<Rightarrow> string option \<Rightarrow> character \<Rightarrow> unit outcome" where
  "finish_create roll name maxValue minValue reset displayType live s =
     (if truthy reset \<and> maxValue = None
      then Raises (InvalidArgument ''Reset passed but no maximum passed.'') s
      else if displayType = Some ''bubble'' \<and> (maxValue = None \<or> minValue = None)
      then Raises (InvalidArgument ''Bubble display requires a max and min value.'') s
      else
        and_then (evaluate_cvar roll s (str_opt maxValue)) (\<lambda>v s1.
          let newCounter = \<lparr>cc_value = v,
                             cc_max = maxValue,
                             cc_min = minValue,
                             cc_reset = (if truthy reset \<and> maxValue \<noteq> None then reset else None),
                             cc_type = displayType,
                             cc_live = live\<rparr>
          in Return () (s1\<lparr>custom := AList.update name newCounter (custom s1)\<rparr>)))"

definition create_consumable ::
  "(string \<Rightarrow> int) \<Rightarrow> character \<Rightarrow> string \<Rightarrow> string option \<Rightarrow> string option \<Rightarrow>
     string option \<Rightarrow> string option \<Rightarrow> string option \<Rightarrow> unit outcome" where
  "create_consumable roll s name maxValue minValue reset displayType live =
     (if \<not> (reset \<in> {Some ''short'', Some ''long'', Some ''none''} \<or> reset = None)
      then Raises (InvalidArgument ''Invalid reset.'') s
      else if \<exists>c \<in> set ''.$''. c \<in> set name
      then Raises (InvalidArgument ''Invalid character in CC name.'') s
      else
        (case (maxValue, minValue) of
           (Some mx, Some mn) \<Rightarrow>
             and_then (evaluate_cvar roll s mx) (\<lambda>maxV s1.
             and_then (evaluate_cvar roll s1 mn) (\<lambda>minV s2.
               if \<not> (maxV \<ge> minV)
               then Raises (InvalidArgument ''Max value is less than min value.'') s2
               else if maxV = 0
               then Raises (InvalidArgument ''Max value cannot be 0.'') s2
               else finish_create roll name maxValue minValue reset displayType live s2))
         | _ \<Rightarrow> finish_create roll name maxValue minValue reset displayType live s))"

text \<open>
  \<open>reset_consumable\<close>. The module never imports \<open>NoReset\<close>, so each \<open>raise NoReset()\<close>
  fails on the name itself.
\<close>

definition reset_consumable :: "(string \<Rightarrow> int) \<Rightarrow> character \<Rightarrow> string \<Rightarrow> unit outcome" where
  "reset_consumable roll s name =
     (case get_consumable s name of
        Inl e \<Rightarrow> Raises e s
      | Inr counter \<Rightarrow>
          if cc_reset counter = Some ''none'' then Raises (NameError ''NoReset'') s
          else (case cc_max counter of
                  None \<Rightarrow> Raises (NameError ''NoReset'') s
                | Some mx \<Rightarrow>
                    and_then (evaluate_cvar roll s mx) (\<lambda>v s1.
                      set_consumable roll s1 name v False)))"

text \<open>
  \<open>_reset_custom\<close>: the loop over the items of the counter dictionary. The names are
  those of the dictionary at entry (no key is added or removed on the way); each counter
  is read in the current state. When \<open>reset_consumable\<close> raises, the handler
  \<open>except NoReset\<close> looks the unbound name up, and that error leaves the method.
\<close>

fun reset_custom_loop ::
  "(string \<Rightarrow> int) \<Rightarrow> string option \<Rightarrow> string list \<Rightarrow> string list \<Rightarrow> character \<Rightarrow>
     string list outcome" where
  "reset_custom_loop roll scope [] reset s = Return reset s"
| "reset_custom_loop roll scope (name # names) reset s =
     (case map_of (custom s) name of
        None \<Rightarrow> reset_custom_loop roll scope names reset s
      | Some v \<Rightarrow>
          if cc_reset v = scope
          then (case reset_consumable roll s name of
                  Raises e s1 \<Rightarrow> Raises (NameError ''NoReset'') s1
                | Return u s1 \<Rightarrow> reset_custom_loop roll scope names (reset @ [name]) s1)
          else reset_custom_loop roll scope names reset s)"

definition reset_custom :: "(string \<Rightarrow> int) \<Rightarrow> character \<Rightarrow> string option \<Rightarrow> string list outcome" where
  "reset_custom roll s scope = reset_custom_loop roll scope (map fst (custom s)) [] s"

section \<open>Hit points and death saves\<close>

definition get_current_hp :: "character \<Rightarrow> int" where
  "get_current_hp s = hp s"

definition get_max_hp :: "character \<Rightarrow> int" where
  "get_max_hp s = max_hp s"

definition set_temp_hp :: "character \<Rightarrow> int \<Rightarrow> character" where
  "set_temp_hp s x = s\<lparr>temp_hp := max 0 x\<rparr>"

text \<open>\<open>modify_hp\<close>; the call to the live integration does not touch the character.\<close>

definition modify_hp :: "character \<Rightarrow> int \<Rightarrow> bool \<Rightarrow> character" where
  "modify_hp s v ignore_temp =
     (if v < 0 \<and> \<not> ignore_temp
      then let thp = temp_hp s;
               s1 = set_temp_hp s (temp_hp s + v);
               v1 = v + min thp (- v)
           in s1\<lparr>hp := hp s1 + v1\<rparr>
      else s\<lparr>hp := hp s + v\<rparr>)"

definition reset_death_saves :: "character \<Rightarrow> character" where
  "reset_death_saves s = s\<lparr>death_saves := \<lparr>successes = 0, fails = 0\<rparr>\<rparr>"

section \<open>Spell slots\<close>

definition get_max_spellslots :: "character \<Rightarrow> int \<Rightarrow> error + int" where
  "get_max_spellslots s level =
     (case spellbook s of
        None \<Rightarrow> Inl OutdatedSheet
      | Some sb \<Rightarrow> Inr (case sb_spellslots sb level of None \<Rightarrow> 0 | Some n \<Rightarrow> n))"

definition get_remaining_slots :: "character \<Rightarrow> int \<Rightarrow> error + int" where
  "get_remaining_slots s level =
     (if \<not> (0 \<le> level \<and> level < 10) then Inl InvalidSpellLevel
      else if level = 0 then Inr 1
      else (case spellslots s of
              None \<Rightarrow> Inl KeyError
            | Some ss \<Rightarrow> (case ss level of None \<Rightarrow> Inl KeyError | Some sl \<Rightarrow> Inr (sl_value sl))))"

text \<open>
  Modelled from the spec: \<open>_initialize_spellslots\<close> is called by \<open>set_remaining_slots\<close>
  but its body is not in the source file. The spec has the ledger initialised lazily, to
  a zeroed structure for the levels 1 to 9, when it does not exist yet; an existing
  ledger is left as it is.
\<close>

definition initialize_spellslots :: "character \<Rightarrow> character" where
  "initialize_spellslots s =
     (case spellslots s of
        Some ss \<Rightarrow> s
      | None \<Rightarrow> s\<lparr>spellslots :=
                   Some (\<lambda>level. if 1 \<le> level \<and> level \<le> 9
                                  then Some \<lparr>sl_value = 0, sl_min = 0\<rparr> else None)\<rparr>)"

text \<open>
  \<open>set_remaining_slots\<close>; \<open>sync\<close> only decides a call to the live integration. The
  chained comparison \<open>0 <= value <= self.get_max_spellslots(level)\<close> tests \<open>0 <= value\<close>
  first and asks for the maximum only when that holds.
\<close>

definition set_remaining_slots :: "character \<Rightarrow> int \<Rightarrow> int \<Rightarrow> bool \<Rightarrow> unit outcome" where
  "set_remaining_slots s level v sync =
     (if \<not> (0 < level \<and> level < 10) then Raises InvalidSpellLevel s
      else if \<not> 0 \<le> v then Raises CounterOutOfBounds s
      else (case get_max_spellslots s level of
              Inl e \<Rightarrow> Raises e s
            | Inr m \<Rightarrow>
                if \<not> v \<le> m then Raises CounterOutOfBounds s
                else
                  let s1 = initialize_spellslots s in
                  (case spellslots s1 of
                     None \<Rightarrow> Raises KeyError s1
                   | Some ss \<Rightarrow>
                       (case ss level of
                          None \<Rightarrow> Raises KeyError s1
                        | Some sl \<Rightarrow>
                            Return () (s1\<lparr>spellslots :=
                                            Some (ss(level \<mapsto> sl\<lparr>sl_value := v\<rparr>))\<rparr>)))))"

definition use_slot :: "character \<Rightarrow> int \<Rightarrow> unit outcome" where
  "use_slot s level =
     (if \<not> (0 \<le> level \<and> level < 10) then Raises InvalidSpellLevel s
      else if level = 0 then Return () s
      else (case spellslots s of
              None \<Rightarrow> Raises KeyError s
            | Some ss \<Rightarrow>
                (case ss level of
                   None \<Rightarrow> Raises KeyError s
                 | Some sl \<Rightarrow>
                     let val = sl_value sl - 1 in
                     if val < sl_min sl then Raises CounterOutOfBounds s
                     else set_remaining_slots s level val True)))"

text \<open>\<open>reset_spellslots\<close>: the loop over \<open>range(1, 10)\<close>.\<close>

fun reset_spellslots_loop :: "int list \<Rightarrow> character \<Rightarrow> unit outcome" where
  "reset_spellslots_loop [] s = Return () s"
| "reset_spellslots_loop (level # levels) s =
     (case get_max_spellslots s level of
        Inl e \<Rightarrow> Raises e s
      | Inr m \<Rightarrow>
          and_then (set_remaining_slots s level m False) (\<lambda>u s1.
            reset_spellslots_loop levels s1))"

definition reset_spellslots :: "character \<Rightarrow> unit outcome" where
  "reset_spellslots s = reset_spellslots_loop [1, 2, 3, 4, 5, 6, 7, 8, 9] s"


section \<open>Resting\<close>

definition on_hp :: "(string \<Rightarrow> int) \<Rightarrow> character \<Rightarrow> string list outcome" where
  "on_hp roll s =
     and_then (reset_custom roll s (Some ''hp'')) (\<lambda>reset s1.
       if get_current_hp s1 > 0
       then Return (reset @ [''Death Saves'']) (reset_death_saves s1)
       else Return reset s1)"

definition set_hp :: "(string \<Rightarrow> int) \<Rightarrow> character \<Rightarrow> int \<Rightarrow> unit outcome" where
  "set_hp roll s newValue =
     and_then (on_hp roll (s\<lparr>hp := newValue\<rparr>)) (\<lambda>r s1. Return () s1)"

definition reset_hp :: "(string \<Rightarrow> int) \<Rightarrow> character \<Rightarrow> unit outcome" where
  "reset_hp roll s = (let s1 = set_temp_hp s 0 in set_hp roll s1 (get_max_hp s1))"

definition get_setting :: "character \<Rightarrow> string \<Rightarrow> bool \<Rightarrow> bool" where
  "get_setting s setting dflt = (case options s setting of None \<Rightarrow> dflt | Some b \<Rightarrow> b)"

definition short_rest :: "(string \<Rightarrow> int) \<Rightarrow> character \<Rightarrow> string list outcome" where
  "short_rest roll s =
     and_then (on_hp roll s) (\<lambda>r1 s1.
     and_then (reset_custom roll s1 (Some ''short'')) (\<lambda>r2 s2.
       if get_setting s2 ''srslots'' False
       then and_then (reset_spellslots s2) (\<lambda>u s3.
              Return (r1 @ r2 @ [''Spell Slots'']) s3)
       else Return (r1 @ r2) s2))"

definition long_rest :: "(string \<Rightarrow> int) \<Rightarrow> character \<Rightarrow> string list outcome" where
  "long_rest roll s =
     and_then (on_hp roll s) (\<lambda>r1 s1.
     and_then (short_rest roll s1) (\<lambda>r2 s2.
     and_then (reset_custom roll s2 (Some ''long'')) (\<lambda>r3 s3.
     and_then (reset_hp roll s3) (\<lambda>u s4.
       if \<not> get_setting s4 ''srslots'' False
       then and_then (reset_spellslots s4) (\<lambda>u s5.
              Return (r1 @ r2 @ r3 @ [''HP''] @ [''Spell Slots'']) s5)
       else Return (r1 @ r2 @ r3 @ [''HP'']) s4))))"

section \<open>An evaluator for concrete runs\<close>

text \<open>
  Modelled from the spec: the dice and arithmetic evaluator is an outside collaborator,
  a function from the final text to a total. \<open>literal_roll\<close> is what such an evaluator
  does on a signed decimal literal, blanks ignored; any other text gives 0, the value
  \<open>evaluate_cvar\<close> documents for a failed evaluation. It is used to run the model on
  concrete characters only; the general theorems hold for every \<open>roll\<close>.
\<close>

definition digit_val :: "char \<Rightarrow> int option" where
  "digit_val c = (let n = of_char c :: int in if 48 \<le> n \<and> n \<le> 57 then Some (n - 48) else None)"

fun digits_val :: "int \<Rightarrow> string \<Rightarrow> int option" where
  "digits_val acc [] = Some acc"
| "digits_val acc (c # cs) =
     (case digit_val c of None \<Rightarrow> None | Some d \<Rightarrow> digits_val (10 * acc + d) cs)"

definition literal_roll :: "string \<Rightarrow> int" where
  "literal_roll str =
     (case filter (\<lambda>c. c \<notin> set whitespace) str of
        [] \<Rightarrow> 0
      | c # cs \<Rightarrow>
          if c = CHR ''-''
          then (if cs = [] then 0
                else case digits_val 0 cs of None \<Rightarrow> 0 | Some n \<Rightarrow> - n)
          else (case digits_val 0 (c # cs) of None \<Rightarrow> 0 | Some n \<Rightarrow> n))"

section \<open>Notions used by the statements\<close>

text \<open>The value a bound resolves to in a given state, when it resolves.\<close>

definition resolve :: "(string \<Rightarrow> int) \<Rightarrow> character \<Rightarrow> string \<Rightarrow> int option" where
  "resolve roll s varstr = result_of (evaluate_cvar roll s varstr)"

text \<open>
  A counter exists, both its bounds resolve (the defaults standing in for an unset
  bound), and its value lies between them.
\<close>

definition within_bounds :: "(string \<Rightarrow> int) \<Rightarrow> character \<Rightarrow> string \<Rightarrow> bool" where
  "within_bounds roll s name =
     (case map_of (custom s) name of
        None \<Rightarrow> False
      | Some c \<Rightarrow>
          (case (resolve roll s (min_text c), resolve roll s (max_text c)) of
             (Some mn, Some mx) \<Rightarrow> mn \<le> cc_value c \<and> cc_value c \<le> mx
           | _ \<Rightarrow> False))"

text \<open>Whether the counter of a name carries a scope.\<close>

definition has_scope :: "character \<Rightarrow> string option \<Rightarrow> string \<Rightarrow> bool" where
  "has_scope s scope name =
     (case map_of (custom s) name of None \<Rightarrow> False | Some c \<Rightarrow> cc_reset c = scope)"

text \<open>
  The scope tag of every counter, in the order of the dictionary; a character none of
  whose counters carries the scope \<open>hp\<close>.
\<close>

definition scopes :: "character \<Rightarrow> (string \<times> string option) list" where
  "scopes s = map (\<lambda>(k, c). (k, cc_reset c)) (custom s)"

definition no_hp_counter :: "character \<Rightarrow> bool" where
  "no_hp_counter s = (Some ''hp'' \<notin> set (map snd (scopes s)))"


text \<open>A level whose remaining slots are its maximum; all the levels 1 to 9.\<close>

definition slot_full :: "character \<Rightarrow> int \<Rightarrow> bool" where
  "slot_full s level = (get_remaining_slots s level = get_max_spellslots s level)"

definition slots_full :: "character \<Rightarrow> bool" where
  "slots_full s = list_all (slot_full s) [1, 2, 3, 4, 5, 6, 7, 8, 9]"

text \<open>
  What the counter operations never change: the character with the \<open>spell\<close> entry of
  the stat-variable table and the values of the counters blanked out. The sweeps and
  the hit-point handlers keep that core up to the hit points and the death saves.
\<close>

definition core :: "character \<Rightarrow> character" where
  "core s = s\<lparr>stat_cvars := map_option (\<lambda>m. m(''spell'' := None)) (stat_cvars s),
             custom := map (\<lambda>(k, c). (k, c\<lparr>cc_value := 0\<rparr>)) (custom s)\<rparr>"

definition rest_core :: "character \<Rightarrow> character" where
  "rest_core s = (core s)\<lparr>hp := 0, temp_hp := 0,
                          death_saves := \<lparr>successes = 0, fails = 0\<rparr>\<rparr>"

section \<open>Characters for concrete runs\<close>

text \<open>
  \<open>sheet\<close> is a character at 10 of 12 hit points, with one success and two failures
  among its death saves, a spellbook with two slots of level 1, no ledger of spell
  slots yet, no counter, no setting and no live integration. \<open>sheet_hurt\<close> has 5
  temporary hit points on top; \<open>sheet_down\<close> is at 0 hit points and \<open>sheet_up\<close> at 1;
  \<open>sheet_quick\<close> recovers its slots on a short rest; \<open>sheet_slots\<close> is the sheet after
  its spell slots were reset, and \<open>sheet_spent\<close> that sheet after one slot of level 1
  was used. \<open>sheet_guarded\<close> carries a ledger whose pool of level 1 is full, with 2
  slots, and has the minimum 1.
\<close>

definition sheet :: character where
  "sheet = \<lparr>hp = 10, max_hp = 12, temp_hp = 0, death_saves = \<lparr>successes = 1, fails = 2\<rparr>,
     cvars = Map.empty, stat_cvars = None, prof_bonus = 2,
     spellbook = Some \<lparr>sb_spellslots = [1 \<mapsto> 2], sb_attackBonus = Some 5\<rparr>,
     spellslots = None, custom = [], options = Map.empty, live_integration = False\<rparr>"

definition sheet_hurt :: character where
  "sheet_hurt = sheet\<lparr>temp_hp := 5\<rparr>"



definition sheet_quick :: character where
  "sheet_quick = sheet\<lparr>options := [''srslots'' \<mapsto> True]\<rparr>"

definition sheet_slots :: character where
  "sheet_slots = state_of (reset_spellslots sheet)"

definition sheet_spent :: character where
  "sheet_spent = state_of (use_slot sheet_slots 1)"


text \<open>
  Sheets with one counter, made by \<open>create_consumable\<close>. \<open>sheet_rage\<close> holds the counter
  of the scenario of the spec (maximum 3, minimum 0, scope \<open>long\<close>); \<open>sheet_floor\<close> a
  counter with only a minimum, \<open>2 ** 32\<close>; \<open>sheet_charm\<close> a counter with a maximum and
  no reset scope, set to 1; \<open>sheet_luck\<close> a counter created with no argument at all;
  \<open>sheet_vow\<close> a counter with a maximum and the scope \<open>none\<close>; \<open>sheet_ki_live\<close> is a
  sheet with a live integration and a counter that carries a live id;
  \<open>sheet_rage_live\<close> is \<open>sheet_spent\<close> with a live integration and the counter of the
  scenario carrying a live id, and \<open>sheet_rage_live_quick\<close> the same with the setting
  \<open>srslots\<close> enabled.
\<close>

definition sheet_rage :: character where
  "sheet_rage = state_of (create_consumable literal_roll sheet ''Rage''
     (Some ''3'') (Some ''0'') (Some ''long'') None None)"

definition rage_counter :: counter where
  "rage_counter = \<lparr>cc_value = 3, cc_max = Some ''3'', cc_min = Some ''0'',
     cc_reset = Some ''long'', cc_type = None, cc_live = None\<rparr>"

definition sheet_floor :: character where
  "sheet_floor = state_of (create_consumable literal_roll sheet ''Floor''
     None (Some ''4294967296'') None None None)"

definition sheet_charm :: character where
  "sheet_charm = state_of (set_consumable literal_roll
     (state_of (create_consumable literal_roll sheet ''Charm'' (Some ''3'') None None None None))
     ''Charm'' 1 False)"

definition charm_counter :: counter where
  "charm_counter = \<lparr>cc_value = 1, cc_max = Some ''3'', cc_min = None,
     cc_reset = None, cc_type = None, cc_live = None\<rparr>"

definition sheet_luck :: character where
  "sheet_luck = state_of (create_consumable literal_roll sheet ''Luck'' None None None None None)"

definition sheet_ki_live :: character where
  "sheet_ki_live = state_of (create_consumable literal_roll (sheet\<lparr>live_integration := True\<rparr>)
     ''Ki'' (Some ''5'') (Some ''0'') None None (Some ''abc123''))"

definition sheet_vow :: character where
  "sheet_vow = state_of (create_consumable literal_roll sheet ''Vow''
     (Some ''2'') None (Some ''none'') None None)"

definition vow_counter :: counter where
  "vow_counter = \<lparr>cc_value = 2, cc_max = Some ''2'', cc_min = None,
     cc_reset = Some ''none'', cc_type = None, cc_live = None\<rparr>"

definition sheet_rage_live :: character where
  "sheet_rage_live = state_of (create_consumable literal_roll
     (sheet_spent\<lparr>live_integration := True\<rparr>) ''Rage''
     (Some ''3'') (Some ''0'') (Some ''long'') None (Some ''abc123''))"

definition sheet_rage_live_quick :: character where
  "sheet_rage_live_quick = state_of (create_consumable literal_roll
     (sheet_spent\<lparr>live_integration := True, options := [''srslots'' \<mapsto> True]\<rparr>) ''Rage''
     (Some ''3'') (Some ''0'') (Some ''long'') None (Some ''abc123''))"

section \<open>What the counter operations leave alone\<close>

lemma core_fields:
  assumes "core s' = core s"
  shows "hp s' = hp s" "max_hp s' = max_hp s" "temp_hp s' = temp_hp s"
    "death_saves s' = death_saves s" "cvars s' = cvars s" "prof_bonus s' = prof_bonus s"
    "spellbook s' = spellbook s" "spellslots s' = spellslots s" "options s' = options s"
    "live_integration s' = live_integration s"
    "map fst (custom s') = map fst (custom s)"
proof -
  have f: "\<And>t. hp (core t) = hp t \<and> max_hp (core t) = max_hp t \<and> temp_hp (core t) = temp_hp t
      \<and> death_saves (core t) = death_saves t \<and> cvars (core t) = cvars t
      \<and> prof_bonus (core t) = prof_bonus t \<and> spellbook (core t) = spellbook t
      \<and> spellslots (core t) = spellslots t \<and> options (core t) = options t
      \<and> live_integration (core t) = live_integration t
      \<and> map fst (custom (core t)) = map fst (custom t)"
    by (simp add: core_def case_prod_unfold comp_def)
  from f [of s'] f [of s] assms
  show "hp s' = hp s" "max_hp s' = max_hp s" "temp_hp s' = temp_hp s"
    "death_saves s' = death_saves s" "cvars s' = cvars s" "prof_bonus s' = prof_bonus s"
    "spellbook s' = spellbook s" "spellslots s' = spellslots s" "options s' = options s"
    "live_integration s' = live_integration s"
    "map fst (custom s') = map fst (custom s)"
    by simp_all
qed

lemma core_stat_update [simp]:
  "core (s\<lparr>stat_cvars := Some (m(''spell'' \<mapsto> x))\<rparr>) = core (s\<lparr>stat_cvars := Some m\<rparr>)"
  by (simp add: core_def)

lemma core_store_value [simp]:
  "core (s\<lparr>custom := store_value name v cs\<rparr>) = core (s\<lparr>custom := cs\<rparr>)"
  by (simp add: core_def store_value_def case_prod_unfold comp_def if_distrib cong: if_cong)

lemma evaluate_cvar_outdated:
  "spellbook s = None \<Longrightarrow> evaluate_cvar roll s v = Raises OutdatedSheet s"
  by (simp add: evaluate_cvar_def get_spell_ab_def)

lemma core_stat_written:
  "core (s\<lparr>stat_cvars := map_option (\<lambda>m. m(''spell'' \<mapsto> x)) (stat_cvars s)\<rparr>) = core s"
  by (cases "stat_cvars s") (simp_all add: core_def)

lemma evaluate_cvar_returns:
  assumes "spellbook s = Some sb"
  shows "\<exists>x st. evaluate_cvar roll s v = Return x (s\<lparr>stat_cvars := st\<rparr>)
           \<and> core (s\<lparr>stat_cvars := st\<rparr>) = core s"
proof -
  define y where "y = PInt ((case sb_attackBonus sb of None \<Rightarrow> 0 | Some ab \<Rightarrow> ab) - prof_bonus s)"
  have "\<exists>x. evaluate_cvar roll s v
      = Return x (s\<lparr>stat_cvars := map_option (\<lambda>m. m(''spell'' \<mapsto> y)) (stat_cvars s)\<rparr>)"
    using assms
    by (cases "stat_cvars s")
      (simp_all add: evaluate_cvar_def get_spell_ab_def get_prof_bonus_def Let_def y_def)
  then show ?thesis using core_stat_written by blast
qed

lemma stat_table_core:
  assumes "core s' = core s"
  shows "(case stat_cvars s' of None \<Rightarrow> Map.empty | Some m \<Rightarrow> m)(''spell'' \<mapsto> x)
       = (case stat_cvars s of None \<Rightarrow> Map.empty | Some m \<Rightarrow> m)(''spell'' \<mapsto> x)"
proof -
  have "stat_cvars (core s') = stat_cvars (core s)" using assms by simp
  then have e: "map_option (\<lambda>m. m(''spell'' := None)) (stat_cvars s')
      = map_option (\<lambda>m. m(''spell'' := None)) (stat_cvars s)"
    by (simp add: core_def)
  show ?thesis
  proof (cases "stat_cvars s")
    case None
    with e have "stat_cvars s' = None" by simp
    with None show ?thesis by simp
  next
    case (Some m)
    with e obtain m' where m': "stat_cvars s' = Some m'" "m'(''spell'' := None) = m(''spell'' := None)"
      by auto
    have "m'(''spell'' \<mapsto> x) = (m'(''spell'' := None))(''spell'' \<mapsto> x)" by simp
    also have "\<dots> = (m(''spell'' := None))(''spell'' \<mapsto> x)" using m'(2) by simp
    also have "\<dots> = m(''spell'' \<mapsto> x)" by simp
    finally show ?thesis using Some m'(1) by simp
  qed
qed

lemma resolve_core:
  assumes "core s' = core s"
  shows "resolve roll s' v = resolve roll s v"
proof -
  note f = core_fields [OF assms]
  show ?thesis
    using stat_table_core [OF assms]
    by (simp add: resolve_def evaluate_cvar_def get_spell_ab_def get_prof_bonus_def Let_def f
        split: option.splits)
qed

lemma resolve_Some_spellbook: "resolve roll s v = Some x \<Longrightarrow> spellbook s \<noteq> None"
  by (cases "spellbook s") (auto simp add: resolve_def evaluate_cvar_outdated)

lemma evaluate_cvar_resolved:
  assumes "resolve roll s v = Some x"
  shows "\<exists>st. evaluate_cvar roll s v = Return x (s\<lparr>stat_cvars := st\<rparr>)
           \<and> core (s\<lparr>stat_cvars := st\<rparr>) = core s"
proof -
  from assms obtain sb where "spellbook s = Some sb"
    using resolve_Some_spellbook by fastforce
  from evaluate_cvar_returns [OF this, of roll v] assms show ?thesis
    by (auto simp add: resolve_def)
qed

lemma map_of_store_value:
  "map_of (store_value name v cs) k
     = (if k = name then map_option (\<lambda>c. c\<lparr>cc_value := v\<rparr>) (map_of cs k) else map_of cs k)"
  by (induction cs) (auto simp add: store_value_def)

lemma map_fst_store_value [simp]: "map fst (store_value name v cs) = map fst cs"
  by (simp add: store_value_def case_prod_unfold comp_def if_distrib cong: if_cong)

lemma set_consumable_run:
  assumes c: "map_of (custom s) name = Some c"
    and mn: "resolve roll s (min_text c) = Some mn"
    and mx: "resolve roll s (max_text c) = Some mx"
  shows "\<exists>st. core (s\<lparr>stat_cvars := st\<rparr>) = core s \<and>
     set_consumable roll s name v strict =
       (if strict \<and> \<not> (mn \<le> v \<and> v \<le> mx) then Raises CounterOutOfBounds (s\<lparr>stat_cvars := st\<rparr>)
        else if truthy (cc_live c) \<and> live_integration s
        then Raises (NameError ''counter'')
               (s\<lparr>stat_cvars := st,
                  custom := store_value name (if strict then v else min (max mn v) mx) (custom s)\<rparr>)
        else Return ()
               (s\<lparr>stat_cvars := st,
                  custom := store_value name (if strict then v else min (max mn v) mx) (custom s)\<rparr>))"
proof -
  from evaluate_cvar_resolved [OF mn] obtain st1 where
    e1: "evaluate_cvar roll s (min_text c) = Return mn (s\<lparr>stat_cvars := st1\<rparr>)"
    and c1: "core (s\<lparr>stat_cvars := st1\<rparr>) = core s" by blast
  have "resolve roll (s\<lparr>stat_cvars := st1\<rparr>) (max_text c) = Some mx"
    using resolve_core [OF c1] mx by simp
  from evaluate_cvar_resolved [OF this] obtain st2 where
    e2: "evaluate_cvar roll (s\<lparr>stat_cvars := st1\<rparr>) (max_text c) = Return mx (s\<lparr>stat_cvars := st2\<rparr>)"
    and c2: "core (s\<lparr>stat_cvars := st2\<rparr>) = core s" using c1 by auto
  show ?thesis
    by (rule exI [of _ st2]) (simp add: set_consumable_def c e1 e2 c2 Let_def)
qed

lemma resolve_total: "spellbook s = Some sb \<Longrightarrow> \<exists>x. resolve roll s v = Some x"
  using evaluate_cvar_returns [of s sb roll v] by (auto simp add: resolve_def)

lemma core_custom_same [simp]: "core (s\<lparr>stat_cvars := st, custom := custom s\<rparr>) = core (s\<lparr>stat_cvars := st\<rparr>)"
  by (simp add: core_def)

lemma set_consumable_core: "core (state_of (set_consumable roll s name v strict)) = core s"
proof (cases "map_of (custom s) name")
  case None
  then show ?thesis by (simp add: set_consumable_def)
next
  case (Some c)
  show ?thesis
  proof (cases "spellbook s")
    case None
    then show ?thesis using Some by (simp add: set_consumable_def evaluate_cvar_outdated)
  next
    case sb: (Some sb)
    from resolve_total [OF sb] obtain mn mx where
      "resolve roll s (min_text c) = Some mn" "resolve roll s (max_text c) = Some mx" by blast
    from set_consumable_run [OF Some this, of v strict] obtain st where
      st: "core (s\<lparr>stat_cvars := st\<rparr>) = core s"
      and r: "set_consumable roll s name v strict =
       (if strict \<and> \<not> (mn \<le> v \<and> v \<le> mx) then Raises CounterOutOfBounds (s\<lparr>stat_cvars := st\<rparr>)
        else if truthy (cc_live c) \<and> live_integration s
        then Raises (NameError ''counter'')
               (s\<lparr>stat_cvars := st,
                  custom := store_value name (if strict then v else min (max mn v) mx) (custom s)\<rparr>)
        else Return ()
               (s\<lparr>stat_cvars := st,
                  custom := store_value name (if strict then v else min (max mn v) mx) (custom s)\<rparr>))"
      by blast
    have "core (s\<lparr>stat_cvars := st, custom := store_value name w (custom s)\<rparr>) = core s" for w
      using core_store_value [where s = "s\<lparr>stat_cvars := st\<rparr>" and name = name and v = w and cs = "custom s"] st
      by simp
    then show ?thesis using st by (simp add: r)
  qed
qed


lemma and_then_state:
  assumes "R (state_of m)" and "\<And>x s1. m = Return x s1 \<Longrightarrow> R (state_of (f x s1))"
  shows "R (state_of (and_then m f))"
  using assms by (cases m) auto

lemma evaluate_cvar_core: "core (state_of (evaluate_cvar roll s v)) = core s"
proof (cases "spellbook s")
  case None
  then show ?thesis by (simp add: evaluate_cvar_outdated)
next
  case (Some sb)
  from evaluate_cvar_returns [OF this, of roll v] show ?thesis by auto
qed

lemma reset_consumable_core: "core (state_of (reset_consumable roll s name)) = core s"
proof -
  have "core (state_of (and_then (evaluate_cvar roll s mx) (\<lambda>v s1. set_consumable roll s1 name v False))) = core s"
    for mx
  proof (rule and_then_state [where R = "\<lambda>t. core t = core s"])
    show "core (state_of (evaluate_cvar roll s mx)) = core s" by (rule evaluate_cvar_core)
  next
    fix x s1
    assume "evaluate_cvar roll s mx = Return x s1"
    then have "core s1 = core s" using evaluate_cvar_core [of roll s mx] by simp
    then show "core (state_of (set_consumable roll s1 name x False)) = core s"
      by (simp add: set_consumable_core)
  qed
  then show ?thesis
    by (simp add: reset_consumable_def get_consumable_def split: option.splits)
qed

lemma reset_custom_loop_core:
  "core (state_of (reset_custom_loop roll scope names acc s)) = core s"
proof (induction names arbitrary: acc s)
  case Nil
  show ?case by simp
next
  case (Cons name names)
  show ?case
  proof (cases "map_of (custom s) name")
    case None
    then show ?thesis using Cons.IH by simp
  next
    case (Some v)
    show ?thesis
    proof (cases "cc_reset v = scope")
      case False
      then show ?thesis using Some Cons.IH by simp
    next
      case True
      show ?thesis
      proof (cases "reset_consumable roll s name")
        case (Return u s1)
        then have "core s1 = core s" using reset_consumable_core [of roll s name] by simp
        then show ?thesis using Some True Return Cons.IH [of "acc @ [name]" s1] by simp
      next
        case (Raises e s1)
        then have "core s1 = core s" using reset_consumable_core [of roll s name] by simp
        then show ?thesis using Some True Raises by simp
      qed
    qed
  qed
qed

lemma reset_custom_core: "core (state_of (reset_custom roll s scope)) = core s"
  by (simp add: reset_custom_def reset_custom_loop_core)

lemma map_of_core:
  "map_of (custom (core s)) k = map_option (\<lambda>c. c\<lparr>cc_value := 0\<rparr>) (map_of (custom s) k)"
proof -
  have "map_of (map (\<lambda>(k, c). (k, c\<lparr>cc_value := 0\<rparr>)) cs) k
      = map_option (\<lambda>c. c\<lparr>cc_value := 0\<rparr>) (map_of cs k)" for cs :: "(string \<times> counter) list"
    by (induction cs) auto
  then show ?thesis by (simp add: core_def)
qed

lemma has_scope_core:
  assumes "core s' = core s"
  shows "has_scope s' scope k = has_scope s scope k"
proof -
  have "map_option (\<lambda>c. c\<lparr>cc_value := 0\<rparr>) (map_of (custom s') k)
      = map_option (\<lambda>c. c\<lparr>cc_value := 0\<rparr>) (map_of (custom s) k)"
    using assms map_of_core [of s' k] map_of_core [of s k] by simp
  then show ?thesis
    by (cases "map_of (custom s') k"; cases "map_of (custom s) k")
       (auto simp add: has_scope_def dest: arg_cong [where f = cc_reset])
qed

lemma reset_custom_loop_names:
  assumes "reset_custom_loop roll scope names acc s = Return r s'"
  shows "r = acc @ filter (has_scope s scope) names"
  using assms
proof (induction names arbitrary: acc s)
  case Nil
  then show ?case by simp
next
  case (Cons name names)
  show ?case
  proof (cases "map_of (custom s) name")
    case None
    then show ?thesis using Cons by (simp add: has_scope_def)
  next
    case (Some v)
    show ?thesis
    proof (cases "cc_reset v = scope")
      case False
      then show ?thesis using Some Cons by (simp add: has_scope_def)
    next
      case True
      show ?thesis
      proof (cases "reset_consumable roll s name")
        case (Return u s1)
        then have c: "core s1 = core s" using reset_consumable_core [of roll s name] by simp
        have "has_scope s1 scope = has_scope s scope"
          using has_scope_core [OF c] by auto
        moreover have "r = (acc @ [name]) @ filter (has_scope s1 scope) names"
          using Some True Return Cons.prems by (intro Cons.IH) simp
        moreover have "has_scope s scope name" using Some True by (simp add: has_scope_def)
        ultimately show ?thesis by simp
      next
        case (Raises e s1)
        then show ?thesis using Some True Cons.prems by simp
      qed
    qed
  qed
qed

lemma reset_custom_names:
  "reset_custom roll s scope = Return r s' \<Longrightarrow> r = filter (has_scope s scope) (map fst (custom s))"
  using reset_custom_loop_names [of roll scope "map fst (custom s)" "[]" s r s']
  by (simp add: reset_custom_def)

section \<open>Setting a counter\<close>

lemma min_text_value [simp]: "min_text (c\<lparr>cc_value := v\<rparr>) = min_text c"
  by (simp add: min_text_def)

lemma max_text_value [simp]: "max_text (c\<lparr>cc_value := v\<rparr>) = max_text c"
  by (simp add: max_text_def)

text \<open>
  C1, as the code has it. A counter whose bounds resolve to \<open>mn \<le> mx\<close> and that is not
  synchronised with a live sheet: \<open>set_consumable\<close> without \<open>strict\<close> returns, the
  stored value is the new value clamped, and it lies between the bounds as they resolve
  in the state after the call.
\<close>

theorem set_consumable_clamps:
  assumes "map_of (custom s) name = Some c"
    and "resolve roll s (min_text c) = Some mn"
    and "resolve roll s (max_text c) = Some mx"
    and "mn \<le> mx"
    and "\<not> (truthy (cc_live c) \<and> live_integration s)"
  shows "returned (set_consumable roll s name v False)
     \<and> get_consumable_value (state_of (set_consumable roll s name v False)) name
         = Inr (min (max mn v) mx)
     \<and> within_bounds roll (state_of (set_consumable roll s name v False)) name"
proof -
  let ?w = "min (max mn v) mx"
  from set_consumable_run [OF assms(1-3), of v False] assms(5) obtain st where
    r: "set_consumable roll s name v False
          = Return () (s\<lparr>stat_cvars := st, custom := store_value name ?w (custom s)\<rparr>)"
    by auto
  let ?s' = "s\<lparr>stat_cvars := st, custom := store_value name ?w (custom s)\<rparr>"
  have c': "map_of (custom ?s') name = Some (c\<lparr>cc_value := ?w\<rparr>)"
    using assms(1) by (simp add: map_of_store_value)
  have "core ?s' = core s"
    using set_consumable_core [of roll s name v False] by (simp add: r)
  then have res: "resolve roll ?s' t = resolve roll s t" for t
    by (rule resolve_core)
  have "within_bounds roll ?s' name"
    unfolding within_bounds_def using c' assms(2-4) by (simp add: res)
  moreover have "get_consumable_value ?s' name = Inr ?w"
    using c' by (simp add: get_consumable_value_def get_consumable_def)
  ultimately show ?thesis by (simp add: r)
qed

theorem set_consumable_clamps_witness:
  "map_of (custom sheet_rage) ''Rage'' = Some rage_counter
   \<and> resolve literal_roll sheet_rage (min_text rage_counter) = Some 0
   \<and> resolve literal_roll sheet_rage (max_text rage_counter) = Some 3
   \<and> returned (set_consumable literal_roll sheet_rage ''Rage'' 7 False)
   \<and> get_consumable_value (state_of (set_consumable literal_roll sheet_rage ''Rage'' 7 False)) ''Rage''
       = Inr 3
   \<and> within_bounds literal_roll (state_of (set_consumable literal_roll sheet_rage ''Rage'' 7 False)) ''Rage''"
proof -
  have h1: "map_of (custom sheet_rage) ''Rage'' = Some rage_counter" by code_simp
  have h2: "resolve literal_roll sheet_rage (min_text rage_counter) = Some 0" by code_simp
  have h3: "resolve literal_roll sheet_rage (max_text rage_counter) = Some 3" by code_simp
  have h4: "(0::int) \<le> 3" by simp
  have h5: "\<not> (truthy (cc_live rage_counter) \<and> live_integration sheet_rage)" by code_simp
  from set_consumable_clamps [OF h1 h2 h3 h4 h5, of 7] h1 h2 h3 show ?thesis by simp
qed

text \<open>
  C1 as stated fails where the bounds cross. A counter created with a minimum of
  \<open>2 ** 32\<close> and no maximum gets the default maximum \<open>2 ** 32 - 1\<close>; setting it to 0
  returns and stores the maximum, which is below the minimum.
\<close>

theorem set_consumable_crossed_bounds:
  "returned (set_consumable literal_roll sheet_floor ''Floor'' 0 False)
   \<and> get_consumable_value (state_of (set_consumable literal_roll sheet_floor ''Floor'' 0 False)) ''Floor''
       = Inr 4294967295
   \<and> resolve literal_roll (state_of (set_consumable literal_roll sheet_floor ''Floor'' 0 False))
        ''4294967296'' = Some 4294967296
   \<and> \<not> within_bounds literal_roll
         (state_of (set_consumable literal_roll sheet_floor ''Floor'' 0 False)) ''Floor''"
  by code_simp

text \<open>
  The strict mode, for a counter that is not synchronised with a live sheet: the call
  raises \<open>CounterOutOfBounds\<close> and leaves the counters alone exactly when the value is
  outside the resolved bounds, and stores the value as given otherwise.
\<close>

lemma set_consumable_strict:
  assumes "map_of (custom s) name = Some c"
    and "resolve roll s (min_text c) = Some mn"
    and "resolve roll s (max_text c) = Some mx"
    and "\<not> (truthy (cc_live c) \<and> live_integration s)"
  shows "(\<not> (mn \<le> v \<and> v \<le> mx) \<longrightarrow>
            raised (set_consumable roll s name v True) = Some CounterOutOfBounds
            \<and> custom (state_of (set_consumable roll s name v True)) = custom s)
       \<and> (mn \<le> v \<and> v \<le> mx \<longrightarrow>
            returned (set_consumable roll s name v True)
            \<and> get_consumable_value (state_of (set_consumable roll s name v True)) name = Inr v)"
  using set_consumable_run [OF assms(1-3), of v True] assms(1,4)
  by (auto simp add: get_consumable_value_def get_consumable_def map_of_store_value)

text \<open>
  C2 at a counter with a live id on a sheet with a live integration: the value 2 is
  inside the bounds 0 and 5, the call stores it and then raises \<open>NameError\<close>, so it
  neither succeeds nor fails with the value unchanged.
\<close>

theorem set_consumable_strict_live:
  "get_consumable_value sheet_ki_live ''Ki'' = Inr 5
   \<and> resolve literal_roll sheet_ki_live ''0'' = Some 0
   \<and> resolve literal_roll sheet_ki_live ''5'' = Some 5
   \<and> raised (set_consumable literal_roll sheet_ki_live ''Ki'' 2 True) = Some (NameError ''counter'')
   \<and> get_consumable_value (state_of (set_consumable literal_roll sheet_ki_live ''Ki'' 2 True)) ''Ki''
       = Inr 2"
  by code_simp

section \<open>Resetting a counter\<close>

text \<open>
  C3, as the code has it. \<open>reset_consumable\<close> fails and changes nothing when the reset
  scope is \<open>none\<close> or the maximum is unset. In every other case, an unset scope
  included, it resolves the maximum: when that fails (the character has no spellbook)
  the call raises \<open>OutdatedSheet\<close> and changes nothing; when it gives \<open>mx\<close> the call
  ends as \<open>set_consumable\<close> with \<open>mx\<close> and without \<open>strict\<close> ends on the same
  character, with the same counters, and the stored value of the counter is \<open>mx\<close>
  afterwards. It returns whenever the counter is not synchronised with a live sheet.
\<close>

theorem reset_consumable_cases:
  assumes "map_of (custom s) name = Some c"
  shows "(cc_reset c = Some ''none'' \<or> cc_max c = None \<longrightarrow>
            \<not> returned (reset_consumable roll s name)
            \<and> state_of (reset_consumable roll s name) = s)
       \<and> (cc_reset c \<noteq> Some ''none'' \<and> cc_max c = Some m \<and> resolve roll s m = None \<longrightarrow>
            raised (reset_consumable roll s name) = Some OutdatedSheet
            \<and> state_of (reset_consumable roll s name) = s)
       \<and> (cc_reset c \<noteq> Some ''none'' \<and> cc_max c = Some m \<and> resolve roll s m = Some mx \<longrightarrow>
            raised (reset_consumable roll s name) = raised (set_consumable roll s name mx False)
            \<and> custom (state_of (reset_consumable roll s name))
                = custom (state_of (set_consumable roll s name mx False))
            \<and> get_consumable_value (state_of (reset_consumable roll s name)) name = Inr mx
            \<and> (\<not> (truthy (cc_live c) \<and> live_integration s) \<longrightarrow>
                 returned (reset_consumable roll s name)))"
proof (intro conjI impI)
  assume "cc_reset c = Some ''none'' \<or> cc_max c = None"
  then show "\<not> returned (reset_consumable roll s name)"
    and "state_of (reset_consumable roll s name) = s"
    using assms by (auto simp add: reset_consumable_def get_consumable_def)
next
  assume a: "cc_reset c \<noteq> Some ''none'' \<and> cc_max c = Some m \<and> resolve roll s m = None"
  have "spellbook s = None"
  proof (cases "spellbook s")
    case None
    then show ?thesis .
  next
    case (Some sb)
    from resolve_total [OF this, of roll m] a show ?thesis by simp
  qed
  then have "evaluate_cvar roll s m = Raises OutdatedSheet s" by (rule evaluate_cvar_outdated)
  then show "raised (reset_consumable roll s name) = Some OutdatedSheet"
    and "state_of (reset_consumable roll s name) = s"
    using assms a by (simp_all add: reset_consumable_def get_consumable_def)
next
  assume a: "cc_reset c \<noteq> Some ''none'' \<and> cc_max c = Some m \<and> resolve roll s m = Some mx"
  then have mt: "max_text c = m" by (simp add: max_text_def)
  from a evaluate_cvar_resolved [of roll s m mx] obtain st where
    e: "evaluate_cvar roll s m = Return mx (s\<lparr>stat_cvars := st\<rparr>)"
    and co: "core (s\<lparr>stat_cvars := st\<rparr>) = core s" by blast
  let ?s1 = "s\<lparr>stat_cvars := st\<rparr>"
  have r: "reset_consumable roll s name = set_consumable roll ?s1 name mx False"
    using assms a e by (simp add: reset_consumable_def get_consumable_def)
  have mx0: "resolve roll s (max_text c) = Some mx" using a mt by simp
  from resolve_Some_spellbook [of roll s m mx] a obtain sb where sb: "spellbook s = Some sb"
    by auto
  from resolve_total [OF sb] obtain mn where mn0: "resolve roll s (min_text c) = Some mn"
    by blast
  have c1: "map_of (custom ?s1) name = Some c" using assms by simp
  have mx1: "resolve roll ?s1 (max_text c) = Some mx" using resolve_core [OF co] mx0 by simp
  have mn1: "resolve roll ?s1 (min_text c) = Some mn" using resolve_core [OF co] mn0 by simp
  have w: "min (max mn mx) mx = mx" by simp
  from set_consumable_run [OF c1 mn1 mx1, of mx False] obtain st1 where
    run1: "set_consumable roll ?s1 name mx False =
       (if False \<and> \<not> (mn \<le> mx \<and> mx \<le> mx) then Raises CounterOutOfBounds (?s1\<lparr>stat_cvars := st1\<rparr>)
        else if truthy (cc_live c) \<and> live_integration ?s1
        then Raises (NameError ''counter'')
               (?s1\<lparr>stat_cvars := st1,
                  custom := store_value name (if False then mx else min (max mn mx) mx) (custom ?s1)\<rparr>)
        else Return ()
               (?s1\<lparr>stat_cvars := st1,
                  custom := store_value name (if False then mx else min (max mn mx) mx) (custom ?s1)\<rparr>))"
    by blast
  from set_consumable_run [OF assms mn0 mx0, of mx False] obtain st0 where
    run0: "set_consumable roll s name mx False =
       (if False \<and> \<not> (mn \<le> mx \<and> mx \<le> mx) then Raises CounterOutOfBounds (s\<lparr>stat_cvars := st0\<rparr>)
        else if truthy (cc_live c) \<and> live_integration s
        then Raises (NameError ''counter'')
               (s\<lparr>stat_cvars := st0,
                  custom := store_value name (if False then mx else min (max mn mx) mx) (custom s)\<rparr>)
        else Return ()
               (s\<lparr>stat_cvars := st0,
                  custom := store_value name (if False then mx else min (max mn mx) mx) (custom s)\<rparr>))"
    by blast
  show "raised (reset_consumable roll s name) = raised (set_consumable roll s name mx False)"
    by (simp add: r run1 run0)
  show "custom (state_of (reset_consumable roll s name))
      = custom (state_of (set_consumable roll s name mx False))"
    by (simp add: r run1 run0)
  show "get_consumable_value (state_of (reset_consumable roll s name)) name = Inr mx"
    using assms
    by (simp add: r run1 get_consumable_value_def get_consumable_def map_of_store_value)
  assume "\<not> (truthy (cc_live c) \<and> live_integration s)"
  then show "returned (reset_consumable roll s name)"
    by (simp add: r run1)
qed

theorem reset_consumable_cases_witness:
  "map_of (custom sheet_charm) ''Charm'' = Some charm_counter
   \<and> raised (reset_consumable literal_roll sheet_charm ''Charm'')
       = raised (set_consumable literal_roll sheet_charm ''Charm'' 3 False)
   \<and> returned (reset_consumable literal_roll sheet_charm ''Charm'')
   \<and> get_consumable_value (state_of (reset_consumable literal_roll sheet_charm ''Charm'')) ''Charm''
       = Inr 3
   \<and> map_of (custom sheet_vow) ''Vow'' = Some vow_counter
   \<and> \<not> returned (reset_consumable literal_roll sheet_vow ''Vow'')
   \<and> state_of (reset_consumable literal_roll sheet_vow ''Vow'') = sheet_vow"
proof -
  have h1: "map_of (custom sheet_charm) ''Charm'' = Some charm_counter" by code_simp
  have h2: "cc_reset charm_counter \<noteq> Some ''none''" by code_simp
  have h3: "cc_max charm_counter = Some ''3''" by code_simp
  have h4: "resolve literal_roll sheet_charm ''3'' = Some 3" by code_simp
  have h5: "\<not> (truthy (cc_live charm_counter) \<and> live_integration sheet_charm)" by code_simp
  have v1: "map_of (custom sheet_vow) ''Vow'' = Some vow_counter" by code_simp
  have v2: "cc_reset vow_counter = Some ''none''" by code_simp
  from reset_consumable_cases [OF h1, where m = "''3''" and roll = literal_roll and mx = 3]
    h2 h3 h4 h5
  have a: "raised (reset_consumable literal_roll sheet_charm ''Charm'')
       = raised (set_consumable literal_roll sheet_charm ''Charm'' 3 False)
   \<and> returned (reset_consumable literal_roll sheet_charm ''Charm'')
   \<and> get_consumable_value (state_of (reset_consumable literal_roll sheet_charm ''Charm'')) ''Charm''
       = Inr 3" by blast
  from reset_consumable_cases [OF v1, where roll = literal_roll] v2
  have b: "\<not> returned (reset_consumable literal_roll sheet_vow ''Vow'')
   \<and> state_of (reset_consumable literal_roll sheet_vow ''Vow'') = sheet_vow" by blast
  show ?thesis using h1 v1 a b by blast
qed

text \<open>
  C3 as stated fails at a counter whose reset scope is unset: with a maximum of 3 and
  the value 1, \<open>reset_consumable\<close> returns and the value is 3.
\<close>

theorem reset_consumable_unset_scope:
  "map_option cc_reset (map_of (custom sheet_charm) ''Charm'') = Some None
   \<and> get_consumable_value sheet_charm ''Charm'' = Inr 1
   \<and> returned (reset_consumable literal_roll sheet_charm ''Charm'')
   \<and> get_consumable_value (state_of (reset_consumable literal_roll sheet_charm ''Charm'')) ''Charm''
       = Inr 3"
  by code_simp

text \<open>
  C5 at a counter without maximum and without reset scope, as \<open>create_consumable\<close>
  with no argument makes it: the sweep for the scope \<open>None\<close> selects it, its reset
  fails, and the sweep raises \<open>NameError\<close> to the caller instead of skipping it.
\<close>

theorem reset_custom_raises:
  "map_of (custom sheet_luck) ''Luck''
     = Some \<lparr>cc_value = 0, cc_max = None, cc_min = None, cc_reset = None,
             cc_type = None, cc_live = None\<rparr>
   \<and> raised (reset_consumable literal_roll sheet_luck ''Luck'') = Some (NameError ''NoReset'')
   \<and> raised (reset_custom literal_roll sheet_luck None) = Some (NameError ''NoReset'')
   \<and> result_of (reset_custom literal_roll sheet_luck None) = None"
  by code_simp

section \<open>Creating a counter\<close>

lemma finish_create_not_invalid_reset:
  "raised (finish_create roll name maxValue minValue reset displayType live s)
     \<noteq> Some (InvalidArgument ''Invalid reset.'')"
proof (cases "spellbook s")
  case None
  then show ?thesis by (simp add: finish_create_def evaluate_cvar_outdated)
next
  case (Some sb)
  from evaluate_cvar_returns [OF this, of roll "str_opt maxValue"] show ?thesis
    by (auto simp add: finish_create_def Let_def)
qed

text \<open>
  C9, as the code has it. \<open>create_consumable\<close> rejects a request with the message
  \<open>Invalid reset.\<close> exactly when the reset scope is none of \<open>short\<close>, \<open>long\<close>, \<open>none\<close>
  and absent; the scope \<open>hp\<close> is among the rejected ones.
\<close>

theorem create_consumable_invalid_reset:
  "(raised (create_consumable roll s name maxValue minValue reset displayType live)
      = Some (InvalidArgument ''Invalid reset.''))
   = (reset \<notin> {None, Some ''short'', Some ''long'', Some ''none''})"
proof (cases "reset \<in> {None, Some ''short'', Some ''long'', Some ''none''}")
  case False
  then show ?thesis by (auto simp add: create_consumable_def)
next
  case True
  note fin = finish_create_not_invalid_reset [of roll name maxValue minValue reset displayType live]
  have "raised (create_consumable roll s name maxValue minValue reset displayType live)
      \<noteq> Some (InvalidArgument ''Invalid reset.'')"
  proof (cases "\<exists>c\<in>set ''.$''. c \<in> set name")
    case bad: True
    then show ?thesis using True by (auto simp add: create_consumable_def)
  next
    case ok: False
    show ?thesis
    proof (cases "maxValue = None \<or> minValue = None")
      case True
      then show ?thesis using \<open>reset \<in> _\<close> ok fin [of s]
        by (auto simp add: create_consumable_def split: option.splits)
    next
      case False
      then obtain mx mn where b: "maxValue = Some mx" "minValue = Some mn" by auto
      show ?thesis
      proof (cases "spellbook s")
        case None
        then show ?thesis using \<open>reset \<in> _\<close> ok b
          by (auto simp add: create_consumable_def evaluate_cvar_outdated)
      next
        case (Some sb)
        from evaluate_cvar_returns [OF Some, of roll mx] obtain maxV st1 where
          e1: "evaluate_cvar roll s mx = Return maxV (s\<lparr>stat_cvars := st1\<rparr>)" by blast
        have "spellbook (s\<lparr>stat_cvars := st1\<rparr>) = Some sb" using Some by simp
        from evaluate_cvar_returns [OF this, of roll mn] obtain minV st2 where
          e2: "evaluate_cvar roll (s\<lparr>stat_cvars := st1\<rparr>) mn = Return minV (s\<lparr>stat_cvars := st2\<rparr>)"
          by auto
        show ?thesis using \<open>reset \<in> _\<close> ok b e1 e2 fin [of "s\<lparr>stat_cvars := st2\<rparr>"]
          by (auto simp add: create_consumable_def)
      qed
    qed
  qed
  then show ?thesis using True by simp
qed

theorem create_consumable_invalid_reset_witness:
  "raised (create_consumable literal_roll sheet ''Ki'' (Some ''3'') None (Some ''short'') None None)
     \<noteq> Some (InvalidArgument ''Invalid reset.'')
   \<and> raised (create_consumable literal_roll sheet ''Ki'' (Some ''3'') None (Some ''dawn'') None None)
     = Some (InvalidArgument ''Invalid reset.'')"
  using create_consumable_invalid_reset
          [of literal_roll sheet "''Ki''" "Some ''3''" None "Some ''short''" None None]
        create_consumable_invalid_reset
          [of literal_roll sheet "''Ki''" "Some ''3''" None "Some ''dawn''" None None]
  by simp

text \<open>C9 as stated fails at the scope \<open>hp\<close>: with a maximum passed, the request is rejected.\<close>

theorem create_consumable_rejects_hp:
  "raised (create_consumable literal_roll sheet ''Second Wind'' (Some ''1'') None (Some ''hp'') None None)
     = Some (InvalidArgument ''Invalid reset.'')
   \<and> custom (state_of (create_consumable literal_roll sheet ''Second Wind''
        (Some ''1'') None (Some ''hp'') None None)) = []"
  by code_simp

text \<open>
  C4, as the code has it. When both bounds are passed and resolve, and the maximum is
  below the minimum or is 0, \<open>create_consumable\<close> raises \<open>InvalidArgument\<close> and no
  counter is inserted.
\<close>

theorem create_consumable_bad_bounds:
  assumes "resolve roll s mx = Some maxV"
    and "resolve roll s mn = Some minV"
    and "maxV < minV \<or> maxV = 0"
  shows "\<exists>msg. raised (create_consumable roll s name (Some mx) (Some mn) reset displayType live)
             = Some (InvalidArgument msg)
           \<and> custom (state_of (create_consumable roll s name (Some mx) (Some mn)
                reset displayType live)) = custom s"
proof -
  from evaluate_cvar_resolved [OF assms(1)] obtain st1 where
    e1: "evaluate_cvar roll s mx = Return maxV (s\<lparr>stat_cvars := st1\<rparr>)"
    and c1: "core (s\<lparr>stat_cvars := st1\<rparr>) = core s" by blast
  have "resolve roll (s\<lparr>stat_cvars := st1\<rparr>) mn = Some minV"
    using resolve_core [OF c1] assms(2) by simp
  from evaluate_cvar_resolved [OF this] obtain st2 where
    e2: "evaluate_cvar roll (s\<lparr>stat_cvars := st1\<rparr>) mn = Return minV (s\<lparr>stat_cvars := st2\<rparr>)"
    by auto
  show ?thesis using assms(3) e1 e2 by (auto simp add: create_consumable_def)
qed

theorem create_consumable_bad_bounds_witness:
  "resolve literal_roll sheet ''2'' = Some 2 \<and> resolve literal_roll sheet ''5'' = Some 5
   \<and> (\<exists>msg. raised (create_consumable literal_roll sheet ''Ki'' (Some ''2'') (Some ''5'')
                (Some ''short'') None None) = Some (InvalidArgument msg)
          \<and> custom (state_of (create_consumable literal_roll sheet ''Ki'' (Some ''2'') (Some ''5'')
                (Some ''short'') None None)) = custom sheet)"
proof -
  have h1: "resolve literal_roll sheet ''2'' = Some 2" by code_simp
  have h2: "resolve literal_roll sheet ''5'' = Some 5" by code_simp
  have h3: "(2::int) < 5 \<or> (2::int) = 0" by simp
  from create_consumable_bad_bounds [OF h1 h2 h3] h1 h2 show ?thesis by blast
qed

text \<open>
  C4 as stated fails when only the maximum is passed: a maximum that resolves to 0 is
  accepted and the counter is inserted, with the value 0.
\<close>

theorem create_consumable_zero_max:
  "resolve literal_roll sheet ''0'' = Some 0
   \<and> returned (create_consumable literal_roll sheet ''Zero'' (Some ''0'') None None None None)
   \<and> map_of (custom (state_of (create_consumable literal_roll sheet ''Zero''
        (Some ''0'') None None None None))) ''Zero''
       = Some \<lparr>cc_value = 0, cc_max = Some ''0'', cc_min = None, cc_reset = None,
               cc_type = None, cc_live = None\<rparr>"
  by code_simp

section \<open>Temporary hit points\<close>

lemma on_hp_core_fields:
  "temp_hp (state_of (on_hp roll s)) = temp_hp s"
  "hp (state_of (on_hp roll s)) = hp s"
proof -
  let ?m = "reset_custom roll s (Some ''hp'')"
  have c: "core (state_of ?m) = core s" by (rule reset_custom_core)
  show "temp_hp (state_of (on_hp roll s)) = temp_hp s"
    using core_fields(3) [OF c]
    by (cases ?m) (simp_all add: on_hp_def reset_death_saves_def get_current_hp_def)
  show "hp (state_of (on_hp roll s)) = hp s"
    using core_fields(1) [OF c]
    by (cases ?m) (simp_all add: on_hp_def reset_death_saves_def get_current_hp_def)
qed

lemma set_hp_temp_hp: "temp_hp (state_of (set_hp roll s x)) = temp_hp s"
  using on_hp_core_fields(1) [of roll "s\<lparr>hp := x\<rparr>"]
  by (cases "on_hp roll (s\<lparr>hp := x\<rparr>)") (simp_all add: set_hp_def)

text \<open>
  C10. \<open>set_temp_hp\<close> stores \<open>max 0 x\<close>. \<open>modify_hp\<close> with a negative value (and
  \<open>ignore_temp\<close> left at its default) takes the damage from the temporary hit points
  first: they absorb \<open>min thp damage\<close> and the hit points lose the rest. No mutation of
  the hit points makes the temporary hit points negative.
\<close>

theorem temp_hp_never_negative:
  "temp_hp (set_temp_hp s x) = max 0 x
   \<and> (v < 0 \<longrightarrow> temp_hp (modify_hp s v False) = max 0 (temp_hp s + v))
   \<and> (v < 0 \<and> 0 \<le> temp_hp s \<longrightarrow>
        temp_hp (modify_hp s v False) = temp_hp s - min (temp_hp s) (- v)
        \<and> hp (modify_hp s v False) = hp s - (- v - min (temp_hp s) (- v)))
   \<and> (0 \<le> temp_hp s \<longrightarrow>
        0 \<le> temp_hp (modify_hp s v ignore_temp)
        \<and> 0 \<le> temp_hp (state_of (set_hp roll s x))
        \<and> 0 \<le> temp_hp (state_of (reset_hp roll s)))"
proof -
  have "temp_hp (state_of (reset_hp roll s)) = 0"
    using set_hp_temp_hp [of roll "set_temp_hp s 0" "get_max_hp (set_temp_hp s 0)"]
    by (simp add: reset_hp_def set_temp_hp_def Let_def)
  then show ?thesis
    by (auto simp add: set_temp_hp_def modify_hp_def Let_def set_hp_temp_hp)
qed

theorem temp_hp_never_negative_witness:
  "temp_hp (set_temp_hp sheet_hurt (- 4)) = 0
   \<and> temp_hp (modify_hp sheet_hurt (- 8) False) = 0
   \<and> hp (modify_hp sheet_hurt (- 8) False) = 7
   \<and> 0 \<le> temp_hp (state_of (set_hp literal_roll sheet_hurt 3))
   \<and> 0 \<le> temp_hp (state_of (reset_hp literal_roll sheet_hurt))"
proof -
  have h1: "(- 8 :: int) < 0" by simp
  have h2: "0 \<le> temp_hp sheet_hurt" by code_simp
  have t: "temp_hp sheet_hurt = 5" "hp sheet_hurt = 10" by code_simp+
  from temp_hp_never_negative [of sheet_hurt "- 4" "- 8" False literal_roll] h1 h2
  have a: "temp_hp (set_temp_hp sheet_hurt (- 4)) = 0"
    and b: "temp_hp (modify_hp sheet_hurt (- 8) False) = temp_hp sheet_hurt - min (temp_hp sheet_hurt) 8"
    and c: "hp (modify_hp sheet_hurt (- 8) False) = hp sheet_hurt - (8 - min (temp_hp sheet_hurt) 8)"
    and d: "0 \<le> temp_hp (state_of (reset_hp literal_roll sheet_hurt))"
    by simp_all
  from temp_hp_never_negative [of sheet_hurt 3 "- 8" False literal_roll] h2
  have e: "0 \<le> temp_hp (state_of (set_hp literal_roll sheet_hurt 3))" by simp
  show ?thesis using a b c d e t by simp
qed

section \<open>Using spell slots\<close>








section \<open>The trigger on hit points\<close>





section \<open>Resting\<close>

lemma and_then_Return:
  "and_then m f = Return r s' \<Longrightarrow> \<exists>x s1. m = Return x s1 \<and> f x s1 = Return r s'"
  by (cases m) auto

lemma rest_core_fields:
  assumes "rest_core s' = rest_core s"
  shows "options s' = options s" "spellbook s' = spellbook s" "spellslots s' = spellslots s"
    "map fst (custom s') = map fst (custom s)" "max_hp s' = max_hp s"
proof -
  have f: "\<And>t. options (rest_core t) = options t \<and> spellbook (rest_core t) = spellbook t
      \<and> spellslots (rest_core t) = spellslots t
      \<and> map fst (custom (rest_core t)) = map fst (custom t) \<and> max_hp (rest_core t) = max_hp t"
    by (simp add: rest_core_def core_def case_prod_unfold comp_def)
  from f [of s'] f [of s] assms
  show "options s' = options s" "spellbook s' = spellbook s" "spellslots s' = spellslots s"
    "map fst (custom s') = map fst (custom s)" "max_hp s' = max_hp s"
    by simp_all
qed

lemma core_rest_core: "core s' = core s \<Longrightarrow> rest_core s' = rest_core s"
  by (simp add: rest_core_def)

lemma rest_core_updates [simp]:
  "rest_core (s\<lparr>hp := x\<rparr>) = rest_core s"
  "rest_core (s\<lparr>temp_hp := y\<rparr>) = rest_core s"
  "rest_core (s\<lparr>death_saves := d\<rparr>) = rest_core s"
  by (simp_all add: rest_core_def core_def)

lemma on_hp_rest_core: "rest_core (state_of (on_hp roll s)) = rest_core s"
proof -
  let ?m = "reset_custom roll s (Some ''hp'')"
  have "rest_core (state_of ?m) = rest_core s"
    by (rule core_rest_core) (rule reset_custom_core)
  then show ?thesis
    by (cases ?m) (simp_all add: on_hp_def reset_death_saves_def)
qed

lemma reset_hp_rest_core: "rest_core (state_of (reset_hp roll s)) = rest_core s"
proof -
  let ?s1 = "(set_temp_hp s 0)\<lparr>hp := get_max_hp (set_temp_hp s 0)\<rparr>"
  have "rest_core (state_of (on_hp roll ?s1)) = rest_core s"
    using on_hp_rest_core [of roll ?s1] by (simp add: set_temp_hp_def)
  then show ?thesis
    by (cases "on_hp roll ?s1") (simp_all add: reset_hp_def set_hp_def Let_def)
qed

lemma reset_custom_in_keys:
  "reset_custom roll s scope = Return r s' \<Longrightarrow> set r \<subseteq> set (map fst (custom s))"
  using reset_custom_names [of roll s scope r s'] by auto

lemma on_hp_in_keys:
  assumes "on_hp roll s = Return r s'"
  shows "set r \<subseteq> insert ''Death Saves'' (set (map fst (custom s)))"
proof -
  from and_then_Return [OF assms [unfolded on_hp_def]] obtain names s1 where
    n: "reset_custom roll s (Some ''hp'') = Return names s1"
    and r: "(if get_current_hp s1 > 0
             then Return (names @ [''Death Saves'']) (reset_death_saves s1)
             else Return names s1) = Return r s'" by blast
  from r have "set r \<subseteq> insert ''Death Saves'' (set names)" by (auto split: if_splits)
  then show ?thesis using reset_custom_in_keys [OF n] by auto
qed

subsection \<open>Resetting the spell slots\<close>

lemma set_remaining_slots_full:
  assumes "set_remaining_slots s k m sync = Return u s'"
    and "get_max_spellslots s k = Inr m"
  shows "spellbook s' = spellbook s" "custom s' = custom s" "options s' = options s"
    "0 < k" "k < 10" "slot_full s' k"
    "\<And>l. slot_full s l \<Longrightarrow> 0 < l \<Longrightarrow> l < 10 \<Longrightarrow> slot_full s' l"
proof -
  show k: "0 < k" "k < 10"
    using assms(1) by (auto simp add: set_remaining_slots_def split: if_splits)
  from assms have b: "0 \<le> m \<and> m \<le> m"
    by (auto simp add: set_remaining_slots_def split: if_splits)
  let ?s1 = "initialize_spellslots s"
  from assms k obtain ss sl where
    ss: "spellslots ?s1 = Some ss" "ss k = Some sl"
    and s': "s' = ?s1\<lparr>spellslots := Some (ss(k \<mapsto> sl\<lparr>sl_value := m\<rparr>))\<rparr>"
    by (auto simp add: set_remaining_slots_def Let_def split: if_splits option.splits)
  have i: "spellbook ?s1 = spellbook s" "custom ?s1 = custom s" "options ?s1 = options s"
    by (simp_all add: initialize_spellslots_def split: option.splits)
  show "spellbook s' = spellbook s" "custom s' = custom s" "options s' = options s"
    using i by (simp_all add: s')
  show "slot_full s' k"
    using k assms(2) i(1)
    by (simp add: slot_full_def s' get_remaining_slots_def get_max_spellslots_def)
  fix l assume l: "slot_full s l" "0 < l" "l < 10"
  show "slot_full s' l"
  proof (cases "l = k")
    case True
    then show ?thesis using \<open>slot_full s' k\<close> by simp
  next
    case False
    from l obtain ss0 where ss0: "spellslots s = Some ss0"
      by (cases "spellslots s")
         (auto simp add: slot_full_def get_remaining_slots_def get_max_spellslots_def
               split: option.splits)
    then have "?s1 = s" by (simp add: initialize_spellslots_def)
    then have "ss = ss0" using ss(1) ss0 by simp
    then show ?thesis using l False ss0 i(1)
      by (simp add: slot_full_def s' get_remaining_slots_def get_max_spellslots_def)
  qed
qed

lemma reset_spellslots_loop_full:
  assumes "reset_spellslots_loop levels s = Return u s'"
  shows "spellbook s' = spellbook s \<and> custom s' = custom s \<and> options s' = options s
       \<and> (\<forall>l \<in> set levels. slot_full s' l)
       \<and> (\<forall>l. slot_full s l \<longrightarrow> 0 < l \<longrightarrow> l < 10 \<longrightarrow> slot_full s' l)"
  using assms
proof (induction levels arbitrary: s)
  case Nil
  then show ?case by simp
next
  case (Cons level levels)
  from Cons.prems obtain m where m: "get_max_spellslots s level = Inr m"
    by (cases "get_max_spellslots s level") auto
  with Cons.prems have "and_then (set_remaining_slots s level m False)
      (\<lambda>u s1. reset_spellslots_loop levels s1) = Return u s'" by simp
  from and_then_Return [OF this] obtain x s1 where
    st: "set_remaining_slots s level m False = Return x s1"
    and lp: "reset_spellslots_loop levels s1 = Return u s'" by blast
  note a = set_remaining_slots_full [OF st m]
  note b = Cons.IH [OF lp]
  have "slot_full s' level" using a(4,5,6) b by blast
  moreover have "\<forall>l. slot_full s l \<longrightarrow> 0 < l \<longrightarrow> l < 10 \<longrightarrow> slot_full s' l"
    using a(7) b by blast
  ultimately show ?case using a(1,2,3) b by simp
qed

lemma reset_spellslots_full:
  assumes "reset_spellslots s = Return u s'"
  shows "spellbook s' = spellbook s" "custom s' = custom s" "options s' = options s"
    "slots_full s'"
  using reset_spellslots_loop_full [OF assms [unfolded reset_spellslots_def]]
  by (simp_all add: slots_full_def)

lemma slots_full_cong:
  "spellslots s' = spellslots s \<Longrightarrow> spellbook s' = spellbook s \<Longrightarrow> slots_full s' = slots_full s"
  by (simp add: slots_full_def slot_full_def get_remaining_slots_def get_max_spellslots_def)

subsection \<open>Short and long rest\<close>

lemma get_setting_options: "options s' = options s \<Longrightarrow> get_setting s' x d = get_setting s x d"
  by (simp add: get_setting_def)

lemma outcome_collapse: "returned m \<Longrightarrow> m = Return (the (result_of m)) (state_of m)"
  by (cases m) simp_all

lemma short_rest_run:
  assumes "short_rest roll s = Return r s'"
    and "''Spell Slots'' \<notin> set (map fst (custom s))"
  shows "map fst (custom s') = map fst (custom s)" "options s' = options s"
    "spellbook s' = spellbook s"
    "count_list r ''Spell Slots'' = (if get_setting s ''srslots'' False then 1 else 0)"
    "get_setting s ''srslots'' False \<Longrightarrow> slots_full s'"
    "\<not> get_setting s ''srslots'' False \<Longrightarrow> spellslots s' = spellslots s"
proof -
  obtain r1 s1 where h1: "on_hp roll s = Return r1 s1"
    using assms(1) by (cases "on_hp roll s") (simp_all add: short_rest_def)
  obtain r2 s2 where h2: "reset_custom roll s1 (Some ''short'') = Return r2 s2"
    using assms(1) h1
    by (cases "reset_custom roll s1 (Some ''short'')") (simp_all add: short_rest_def)
  have c1: "rest_core s1 = rest_core s" using on_hp_rest_core [of roll s] h1 by simp
  have "core s2 = core s1" using reset_custom_core [of roll s1 "Some ''short''"] h2 by simp
  then have "rest_core s2 = rest_core s1" by (rule core_rest_core)
  then have c2: "rest_core s2 = rest_core s" using c1 by simp
  note f1 = rest_core_fields [OF c1] and f2 = rest_core_fields [OF c2]
  have n1: "''Spell Slots'' \<notin> set r1" using on_hp_in_keys [OF h1] assms(2) by auto
  have n2: "''Spell Slots'' \<notin> set r2" using reset_custom_in_keys [OF h2] assms(2) f1(4) by auto
  have g: "get_setting s2 ''srslots'' False = get_setting s ''srslots'' False"
    using f2(1) by (rule get_setting_options)
  have all: "map fst (custom s') = map fst (custom s) \<and> options s' = options s
      \<and> spellbook s' = spellbook s
      \<and> count_list r ''Spell Slots'' = (if get_setting s ''srslots'' False then 1 else 0)
      \<and> (get_setting s ''srslots'' False \<longrightarrow> slots_full s')
      \<and> (\<not> get_setting s ''srslots'' False \<longrightarrow> spellslots s' = spellslots s)"
  proof (cases "get_setting s ''srslots'' False")
    case True
    obtain u s3 where rs: "reset_spellslots s2 = Return u s3"
      using assms(1) h1 h2 g True
      by (cases "reset_spellslots s2") (simp_all add: short_rest_def)
    have e: "s' = s3" "r = r1 @ r2 @ [''Spell Slots'']"
      using assms(1) h1 h2 g True rs by (simp_all add: short_rest_def)
    note q = reset_spellslots_full [OF rs]
    show ?thesis using True q f2(1,2,4) n1 n2 e by simp
  next
    case False
    have e: "s' = s2" "r = r1 @ r2"
      using assms(1) h1 h2 g False by (simp_all add: short_rest_def)
    show ?thesis using False f2 n1 n2 e by simp
  qed
  show "map fst (custom s') = map fst (custom s)" "options s' = options s"
    "spellbook s' = spellbook s"
    "count_list r ''Spell Slots'' = (if get_setting s ''srslots'' False then 1 else 0)"
    "get_setting s ''srslots'' False \<Longrightarrow> slots_full s'"
    "\<not> get_setting s ''srslots'' False \<Longrightarrow> spellslots s' = spellslots s"
    using all by simp_all
qed

text \<open>
  When \<open>long_rest\<close> returns and no custom counter is named \<open>Spell Slots\<close>, its list
  holds that label exactly once, whatever the setting \<open>srslots\<close>: the list is that of
  \<open>on_hp\<close>, that of the short rest, the names of the counters of scope \<open>long\<close>, \<open>HP\<close>,
  and the label when the setting is disabled; the short rest contributes the label once
  when the setting is enabled and not at all otherwise, and the other parts never.
  Afterwards every level from 1 to 9 has its maximum of slots.
\<close>

lemma long_rest_spell_slots:
  assumes "long_rest roll s = Return r s'"
    and "''Spell Slots'' \<notin> set (map fst (custom s))"
  shows "count_list r ''Spell Slots'' = 1
     \<and> slots_full s'
     \<and> (\<exists>r1 s1 r2 s2 r3.
           on_hp roll s = Return r1 s1 \<and> short_rest roll s1 = Return r2 s2
           \<and> r = r1 @ r2 @ r3 @ [''HP'']
                 @ (if get_setting s ''srslots'' False then [] else [''Spell Slots''])
           \<and> count_list r1 ''Spell Slots'' = 0
           \<and> count_list r2 ''Spell Slots'' = (if get_setting s ''srslots'' False then 1 else 0)
           \<and> count_list r3 ''Spell Slots'' = 0)"
proof -
  let ?on = "get_setting s ''srslots'' False"
  obtain r1 s1 where h1: "on_hp roll s = Return r1 s1"
    using assms(1) by (cases "on_hp roll s") (simp_all add: long_rest_def)
  obtain r2 s2 where h2: "short_rest roll s1 = Return r2 s2"
    using assms(1) h1 by (cases "short_rest roll s1") (simp_all add: long_rest_def)
  obtain r3 s3 where h3: "reset_custom roll s2 (Some ''long'') = Return r3 s3"
    using assms(1) h1 h2
    by (cases "reset_custom roll s2 (Some ''long'')") (simp_all add: long_rest_def)
  obtain u4 s4 where h4: "reset_hp roll s3 = Return u4 s4"
    using assms(1) h1 h2 h3 by (cases "reset_hp roll s3") (simp_all add: long_rest_def)
  have t4: "(if \<not> get_setting s4 ''srslots'' False
       then and_then (reset_spellslots s4) (\<lambda>u s5.
              Return (r1 @ r2 @ r3 @ [''HP''] @ [''Spell Slots'']) s5)
       else Return (r1 @ r2 @ r3 @ [''HP'']) s4) = Return r s'"
    using assms(1) by (simp add: long_rest_def h1 h2 h3 h4)
  have c1: "rest_core s1 = rest_core s" using on_hp_rest_core [of roll s] h1 by simp
  note f1 = rest_core_fields [OF c1]
  have k1: "''Spell Slots'' \<notin> set (map fst (custom s1))" using assms(2) f1(4) by simp
  note sr = short_rest_run [OF h2 k1]
  have g1: "get_setting s1 ''srslots'' False = ?on" using f1(1) by (rule get_setting_options)
  have "core s3 = core s2" using reset_custom_core [of roll s2 "Some ''long''"] h3 by simp
  then have c3: "rest_core s3 = rest_core s2" by (rule core_rest_core)
  have "rest_core s4 = rest_core s3" using reset_hp_rest_core [of roll s3] h4 by simp
  then have c4: "rest_core s4 = rest_core s2" using c3 by simp
  note f4 = rest_core_fields [OF c4]
  have "get_setting s4 ''srslots'' False = get_setting s2 ''srslots'' False"
    using f4(1) by (rule get_setting_options)
  moreover have "get_setting s2 ''srslots'' False = get_setting s1 ''srslots'' False"
    using sr(2) by (rule get_setting_options)
  ultimately have g4: "get_setting s4 ''srslots'' False = ?on" using g1 by simp
  have n1: "''Spell Slots'' \<notin> set r1" using on_hp_in_keys [OF h1] assms(2) by auto
  have n3: "''Spell Slots'' \<notin> set r3" using reset_custom_in_keys [OF h3] k1 sr(1) by auto
  have c2: "count_list r2 ''Spell Slots'' = (if ?on then 1 else 0)" using sr(4) g1 by simp
  have both: "r = r1 @ r2 @ r3 @ [''HP''] @ (if ?on then [] else [''Spell Slots''])
      \<and> slots_full s'"
  proof (cases ?on)
    case True
    then have e: "s' = s4" "r = r1 @ r2 @ r3 @ [''HP'']" using t4 g4 by simp_all
    have "slots_full s2" using sr(5) True g1 by simp
    moreover have "slots_full s4 = slots_full s2" using f4(3,2) by (rule slots_full_cong)
    ultimately show ?thesis using True e by simp
  next
    case False
    obtain u s5 where rs: "reset_spellslots s4 = Return u s5"
      using t4 g4 False by (cases "reset_spellslots s4") simp_all
    have e: "s' = s5" "r = r1 @ r2 @ r3 @ [''HP''] @ [''Spell Slots'']"
      using t4 g4 False rs by simp_all
    show ?thesis using False e reset_spellslots_full(4) [OF rs] by simp
  qed
  then have r: "r = r1 @ r2 @ r3 @ [''HP''] @ (if ?on then [] else [''Spell Slots''])"
    and full: "slots_full s'" by simp_all
  have z1: "count_list r1 ''Spell Slots'' = 0" using n1 by simp
  have z3: "count_list r3 ''Spell Slots'' = 0" using n3 by simp
  have one: "count_list r ''Spell Slots'' = 1" using z1 z3 c2 by (simp add: r)
  have "\<exists>r1 s1 r2 s2 r3.
           on_hp roll s = Return r1 s1 \<and> short_rest roll s1 = Return r2 s2
           \<and> r = r1 @ r2 @ r3 @ [''HP''] @ (if ?on then [] else [''Spell Slots''])
           \<and> count_list r1 ''Spell Slots'' = 0
           \<and> count_list r2 ''Spell Slots'' = (if ?on then 1 else 0)
           \<and> count_list r3 ''Spell Slots'' = 0"
    apply (rule exI [of _ r1])
    apply (rule exI [of _ s1])
    apply (rule exI [of _ r2])
    apply (rule exI [of _ s2])
    apply (rule exI [of _ r3])
    apply (intro conjI)
         apply (rule h1)
        apply (rule h2)
       apply (rule r)
      apply (rule z1)
     apply (rule c2)
    apply (rule z3)
    done
  with one full show ?thesis by (intro conjI)
qed
lemma long_rest_spell_slots_witness:
  "result_of (long_rest literal_roll sheet)
     = Some [''Death Saves'', ''Death Saves'', ''HP'', ''Spell Slots'']
   \<and> count_list (the (result_of (long_rest literal_roll sheet))) ''Spell Slots'' = 1
   \<and> slots_full (state_of (long_rest literal_roll sheet))
   \<and> result_of (long_rest literal_roll sheet_quick)
     = Some [''Death Saves'', ''Death Saves'', ''Spell Slots'', ''HP'']
   \<and> count_list (the (result_of (long_rest literal_roll sheet_quick))) ''Spell Slots'' = 1
   \<and> slots_full (state_of (long_rest literal_roll sheet_quick))"
proof -
  have a1: "returned (long_rest literal_roll sheet)" by code_simp
  have a2: "''Spell Slots'' \<notin> set (map fst (custom sheet))" by code_simp
  have a3: "result_of (long_rest literal_roll sheet)
     = Some [''Death Saves'', ''Death Saves'', ''HP'', ''Spell Slots'']" by code_simp
  have b1: "returned (long_rest literal_roll sheet_quick)" by code_simp
  have b2: "''Spell Slots'' \<notin> set (map fst (custom sheet_quick))" by code_simp
  have b3: "result_of (long_rest literal_roll sheet_quick)
     = Some [''Death Saves'', ''Death Saves'', ''Spell Slots'', ''HP'']" by code_simp
  from long_rest_spell_slots [OF outcome_collapse [OF a1] a2]
  have a: "count_list (the (result_of (long_rest literal_roll sheet))) ''Spell Slots'' = 1
      \<and> slots_full (state_of (long_rest literal_roll sheet))" by blast
  from long_rest_spell_slots [OF outcome_collapse [OF b1] b2]
  have b: "count_list (the (result_of (long_rest literal_roll sheet_quick))) ''Spell Slots'' = 1
      \<and> slots_full (state_of (long_rest literal_roll sheet_quick))" by blast
  show ?thesis using a b a3 b3 by blast
qed

text \<open>
  C7 at a counter of scope \<open>long\<close> that carries a live id, on a character with a live
  integration, 10 of 12 hit points and 1 of 2 slots of level 1: the sweep of the long
  rest stores the maximum of the counter and then fails on the unbound \<open>counter\<close>, the
  handler \<open>except NoReset\<close> fails on its own name, and \<open>long_rest\<close> raises. No list is
  returned; with the setting \<open>srslots\<close> disabled the hit points and the slots are as
  before the call. With the setting enabled the call raises as well.
\<close>

theorem long_rest_live_counter:
  "map_of (custom sheet_rage_live) ''Rage''
     = Some \<lparr>cc_value = 3, cc_max = Some ''3'', cc_min = Some ''0'', cc_reset = Some ''long'',
             cc_type = None, cc_live = Some ''abc123''\<rparr>
   \<and> live_integration sheet_rage_live
   \<and> hp sheet_rage_live = 10 \<and> max_hp sheet_rage_live = 12
   \<and> get_remaining_slots sheet_rage_live 1 = Inr 1
   \<and> get_max_spellslots sheet_rage_live 1 = Inr 2
   \<and> raised (long_rest literal_roll sheet_rage_live) = Some (NameError ''NoReset'')
   \<and> result_of (long_rest literal_roll sheet_rage_live) = None
   \<and> hp (state_of (long_rest literal_roll sheet_rage_live)) = 10
   \<and> get_remaining_slots (state_of (long_rest literal_roll sheet_rage_live)) 1 = Inr 1
   \<and> \<not> slots_full (state_of (long_rest literal_roll sheet_rage_live))
   \<and> get_setting sheet_rage_live_quick ''srslots'' False
   \<and> raised (long_rest literal_roll sheet_rage_live_quick) = Some (NameError ''NoReset'')
   \<and> result_of (long_rest literal_roll sheet_rage_live_quick) = None"
  by code_simp

section \<open>The scope tags the operations can make\<close>

text \<open>
  \<open>create_consumable\<close> is the only operation that adds a counter, and the tag it writes
  is \<open>short\<close>, \<open>long\<close>, \<open>none\<close> or none at all; every other operation keeps the tags of
  all counters, also when it raises. So a character without a counter of scope \<open>hp\<close>
  never obtains one.
\<close>

lemma has_scope_scopes: "has_scope s scope k = (map_of (scopes s) k = Some scope)"
proof -
  have "map_of (map (\<lambda>(k, c). (k, cc_reset c)) cs) k = map_option cc_reset (map_of cs k)"
    for cs :: "(string \<times> counter) list"
    by (induction cs) auto
  then show ?thesis
    by (cases "map_of (custom s) k") (simp_all add: has_scope_def scopes_def)
qed

lemma no_hp_counter_sweep:
  assumes "no_hp_counter s"
  shows "\<forall>k \<in> set (map fst (custom s)). \<not> has_scope s (Some ''hp'') k"
proof (intro ballI notI)
  fix k assume "has_scope s (Some ''hp'') k"
  then have "(k, Some ''hp'') \<in> set (scopes s)"
    by (simp add: has_scope_scopes map_of_SomeD)
  then have "Some ''hp'' \<in> set (map snd (scopes s))" by force
  then show False using assms by (simp add: no_hp_counter_def)
qed

lemma scopes_core: "scopes (core s) = scopes s"
  by (simp add: scopes_def core_def case_prod_unfold comp_def)

lemma scopes_rest_core: "scopes (rest_core s) = scopes s"
  by (simp add: scopes_def rest_core_def core_def case_prod_unfold comp_def)

lemma scopes_of_core: "core s' = core s \<Longrightarrow> scopes s' = scopes s"
  by (metis scopes_core)

lemma scopes_of_rest_core: "rest_core s' = rest_core s \<Longrightarrow> scopes s' = scopes s"
  by (metis scopes_rest_core)

lemma state_of_and_then_Return: "state_of (and_then m (\<lambda>x t. Return (g x) t)) = state_of m"
  by (cases m) simp_all

lemma set_remaining_slots_custom:
  "custom (state_of (set_remaining_slots s level v sync)) = custom s"
  by (simp add: set_remaining_slots_def initialize_spellslots_def Let_def
      split: sum.splits option.splits)

lemma reset_spellslots_loop_custom:
  "custom (state_of (reset_spellslots_loop levels s)) = custom s"
proof (induction levels arbitrary: s)
  case Nil
  show ?case by simp
next
  case (Cons level levels)
  show ?case
  proof (cases "get_max_spellslots s level")
    case (Inl e)
    then show ?thesis by simp
  next
    case (Inr m)
    show ?thesis
      using set_remaining_slots_custom [of s level m False] Cons.IH
      by (cases "set_remaining_slots s level m False") (simp_all add: Inr)
  qed
qed

lemma use_slot_custom: "custom (state_of (use_slot s level)) = custom s"
  using set_remaining_slots_custom [of s level _ True]
  by (simp add: use_slot_def Let_def split: option.splits)

lemma scopes_custom: "custom s' = custom s \<Longrightarrow> scopes s' = scopes s"
  by (simp add: scopes_def)

lemma reset_spellslots_scopes: "scopes (state_of (reset_spellslots s)) = scopes s"
  unfolding reset_spellslots_def by (rule scopes_custom) (rule reset_spellslots_loop_custom)

lemma short_rest_scopes: "scopes (state_of (short_rest roll s)) = scopes s"
  unfolding short_rest_def
proof (rule and_then_state [where R = "\<lambda>t. scopes t = scopes s"])
  show "scopes (state_of (on_hp roll s)) = scopes s"
    by (rule scopes_of_rest_core) (rule on_hp_rest_core)
next
  fix r1 s1
  assume "on_hp roll s = Return r1 s1"
  then have s1: "scopes s1 = scopes s"
    using scopes_of_rest_core [OF on_hp_rest_core [of roll s]] by simp
  show "scopes (state_of (and_then (reset_custom roll s1 (Some ''short'')) (\<lambda>r2 s2.
           if get_setting s2 ''srslots'' False
           then and_then (reset_spellslots s2) (\<lambda>u s3. Return (r1 @ r2 @ [''Spell Slots'']) s3)
           else Return (r1 @ r2) s2))) = scopes s"
  proof (rule and_then_state [where R = "\<lambda>t. scopes t = scopes s"])
    show "scopes (state_of (reset_custom roll s1 (Some ''short''))) = scopes s"
      using scopes_of_core [OF reset_custom_core [of roll s1 "Some ''short''"]] s1 by simp
  next
    fix r2 s2
    assume "reset_custom roll s1 (Some ''short'') = Return r2 s2"
    then have s2: "scopes s2 = scopes s"
      using scopes_of_core [OF reset_custom_core [of roll s1 "Some ''short''"]] s1 by simp
    have "scopes (state_of (reset_spellslots s2)) = scopes s"
      using reset_spellslots_scopes [of s2] s2 by simp
    then show "scopes (state_of (if get_setting s2 ''srslots'' False
           then and_then (reset_spellslots s2) (\<lambda>u s3. Return (r1 @ r2 @ [''Spell Slots'']) s3)
           else Return (r1 @ r2) s2)) = scopes s"
      using s2 by (simp add: state_of_and_then_Return)
  qed
qed

lemma long_rest_scopes: "scopes (state_of (long_rest roll s)) = scopes s"
  unfolding long_rest_def
proof (rule and_then_state [where R = "\<lambda>t. scopes t = scopes s"])
  show "scopes (state_of (on_hp roll s)) = scopes s"
    by (rule scopes_of_rest_core) (rule on_hp_rest_core)
next
  fix r1 s1
  assume "on_hp roll s = Return r1 s1"
  then have s1: "scopes s1 = scopes s"
    using scopes_of_rest_core [OF on_hp_rest_core [of roll s]] by simp
  show "scopes (state_of (and_then (short_rest roll s1) (\<lambda>r2 s2.
     and_then (reset_custom roll s2 (Some ''long'')) (\<lambda>r3 s3.
     and_then (reset_hp roll s3) (\<lambda>u s4.
       if \<not> get_setting s4 ''srslots'' False
       then and_then (reset_spellslots s4) (\<lambda>u s5.
              Return (r1 @ r2 @ r3 @ [''HP''] @ [''Spell Slots'']) s5)
       else Return (r1 @ r2 @ r3 @ [''HP'']) s4))))) = scopes s"
  proof (rule and_then_state [where R = "\<lambda>t. scopes t = scopes s"])
    show "scopes (state_of (short_rest roll s1)) = scopes s"
      using short_rest_scopes [of roll s1] s1 by simp
  next
    fix r2 s2
    assume "short_rest roll s1 = Return r2 s2"
    then have s2: "scopes s2 = scopes s" using short_rest_scopes [of roll s1] s1 by simp
    show "scopes (state_of (and_then (reset_custom roll s2 (Some ''long'')) (\<lambda>r3 s3.
     and_then (reset_hp roll s3) (\<lambda>u s4.
       if \<not> get_setting s4 ''srslots'' False
       then and_then (reset_spellslots s4) (\<lambda>u s5.
              Return (r1 @ r2 @ r3 @ [''HP''] @ [''Spell Slots'']) s5)
       else Return (r1 @ r2 @ r3 @ [''HP'']) s4)))) = scopes s"
    proof (rule and_then_state [where R = "\<lambda>t. scopes t = scopes s"])
      show "scopes (state_of (reset_custom roll s2 (Some ''long''))) = scopes s"
        using scopes_of_core [OF reset_custom_core [of roll s2 "Some ''long''"]] s2 by simp
    next
      fix r3 s3
      assume "reset_custom roll s2 (Some ''long'') = Return r3 s3"
      then have s3: "scopes s3 = scopes s"
        using scopes_of_core [OF reset_custom_core [of roll s2 "Some ''long''"]] s2 by simp
      show "scopes (state_of (and_then (reset_hp roll s3) (\<lambda>u s4.
       if \<not> get_setting s4 ''srslots'' False
       then and_then (reset_spellslots s4) (\<lambda>u s5.
              Return (r1 @ r2 @ r3 @ [''HP''] @ [''Spell Slots'']) s5)
       else Return (r1 @ r2 @ r3 @ [''HP'']) s4))) = scopes s"
      proof (rule and_then_state [where R = "\<lambda>t. scopes t = scopes s"])
        show "scopes (state_of (reset_hp roll s3)) = scopes s"
          using scopes_of_rest_core [OF reset_hp_rest_core [of roll s3]] s3 by simp
      next
        fix u s4
        assume "reset_hp roll s3 = Return u s4"
        then have s4: "scopes s4 = scopes s"
          using scopes_of_rest_core [OF reset_hp_rest_core [of roll s3]] s3 by simp
        have "scopes (state_of (reset_spellslots s4)) = scopes s"
          using reset_spellslots_scopes [of s4] s4 by simp
        then show "scopes (state_of (if \<not> get_setting s4 ''srslots'' False
           then and_then (reset_spellslots s4) (\<lambda>u s5.
              Return (r1 @ r2 @ r3 @ [''HP''] @ [''Spell Slots'']) s5)
           else Return (r1 @ r2 @ r3 @ [''HP'']) s4)) = scopes s"
          using s4 by (simp add: state_of_and_then_Return)
      qed
    qed
  qed
qed

lemma set_hp_rest_core: "rest_core (state_of (set_hp roll s x)) = rest_core s"
  using on_hp_rest_core [of roll "s\<lparr>hp := x\<rparr>"]
  by (simp add: set_hp_def state_of_and_then_Return)

lemma scopes_kept:
  shows "scopes (state_of (set_consumable roll s name v strict)) = scopes s"
    and "scopes (state_of (reset_consumable roll s name)) = scopes s"
    and "scopes (state_of (reset_custom roll s scope)) = scopes s"
    and "scopes (state_of (on_hp roll s)) = scopes s"
    and "scopes (state_of (set_hp roll s x)) = scopes s"
    and "scopes (state_of (reset_hp roll s)) = scopes s"
    and "scopes (set_temp_hp s x) = scopes s"
    and "scopes (modify_hp s x ignore_temp) = scopes s"
    and "scopes (state_of (set_remaining_slots s level y sync)) = scopes s"
    and "scopes (state_of (use_slot s level)) = scopes s"
    and "scopes (state_of (reset_spellslots s)) = scopes s"
    and "scopes (state_of (short_rest roll s)) = scopes s"
    and "scopes (state_of (long_rest roll s)) = scopes s"
proof -
  show "scopes (state_of (set_consumable roll s name v strict)) = scopes s"
    by (rule scopes_of_core) (rule set_consumable_core)
  show "scopes (state_of (reset_consumable roll s name)) = scopes s"
    by (rule scopes_of_core) (rule reset_consumable_core)
  show "scopes (state_of (reset_custom roll s scope)) = scopes s"
    by (rule scopes_of_core) (rule reset_custom_core)
  show "scopes (state_of (on_hp roll s)) = scopes s"
    by (rule scopes_of_rest_core) (rule on_hp_rest_core)
  show "scopes (state_of (set_hp roll s x)) = scopes s"
    by (rule scopes_of_rest_core) (rule set_hp_rest_core)
  show "scopes (state_of (reset_hp roll s)) = scopes s"
    by (rule scopes_of_rest_core) (rule reset_hp_rest_core)
  show "scopes (set_temp_hp s x) = scopes s"
    by (simp add: scopes_def set_temp_hp_def)
  show "scopes (modify_hp s x ignore_temp) = scopes s"
    by (simp add: scopes_def modify_hp_def set_temp_hp_def Let_def)
  show "scopes (state_of (set_remaining_slots s level y sync)) = scopes s"
    by (rule scopes_custom) (rule set_remaining_slots_custom)
  show "scopes (state_of (use_slot s level)) = scopes s"
    by (rule scopes_custom) (rule use_slot_custom)
  show "scopes (state_of (reset_spellslots s)) = scopes s"
    by (rule reset_spellslots_scopes)
  show "scopes (state_of (short_rest roll s)) = scopes s" by (rule short_rest_scopes)
  show "scopes (state_of (long_rest roll s)) = scopes s" by (rule long_rest_scopes)
qed

lemma update_entries: "set (AList.update k v al) \<subseteq> insert (k, v) (set al)"
  by (induction al) auto

lemma scopes_update:
  "set (scopes (s\<lparr>custom := AList.update name nc (custom s)\<rparr>))
     \<subseteq> insert (name, cc_reset nc) (set (scopes s))"
proof -
  have "(\<lambda>(k, c). (k, cc_reset c)) ` set (AList.update name nc (custom s))
      \<subseteq> (\<lambda>(k, c). (k, cc_reset c)) ` insert (name, nc) (set (custom s))"
    by (rule image_mono) (rule update_entries)
  then show ?thesis by (simp add: scopes_def)
qed

lemma finish_create_scopes:
  "set (scopes (state_of (finish_create roll name maxValue minValue reset displayType live s)))
     \<subseteq> insert (name, if truthy reset \<and> maxValue \<noteq> None then reset else None) (set (scopes s))"
proof -
  let ?tag = "if truthy reset \<and> maxValue \<noteq> None then reset else None"
  let ?R = "\<lambda>t. set (scopes t) \<subseteq> insert (name, ?tag) (set (scopes s))"
  have "?R (state_of (and_then (evaluate_cvar roll s (str_opt maxValue)) (\<lambda>v s1.
          Return () (s1\<lparr>custom := AList.update name
             \<lparr>cc_value = v, cc_max = maxValue, cc_min = minValue, cc_reset = ?tag,
              cc_type = displayType, cc_live = live\<rparr> (custom s1)\<rparr>))))"
  proof (rule and_then_state [where R = ?R])
    show "?R (state_of (evaluate_cvar roll s (str_opt maxValue)))"
      using scopes_of_core [OF evaluate_cvar_core [of roll s "str_opt maxValue"]] by auto
  next
    fix v s1
    assume "evaluate_cvar roll s (str_opt maxValue) = Return v s1"
    then have s1: "scopes s1 = scopes s"
      using scopes_of_core [OF evaluate_cvar_core [of roll s "str_opt maxValue"]] by simp
    let ?nc = "\<lparr>cc_value = v, cc_max = maxValue, cc_min = minValue, cc_reset = ?tag,
              cc_type = displayType, cc_live = live\<rparr>"
    show "?R (state_of (Return () (s1\<lparr>custom := AList.update name ?nc (custom s1)\<rparr>)))"
      using scopes_update [where s = s1 and name = name and nc = ?nc] s1 by simp
  qed
  note main = this
  show ?thesis
  proof (cases "truthy reset \<and> maxValue = None")
    case True
    then show ?thesis by (auto simp add: finish_create_def)
  next
    case a: False
    show ?thesis
    proof (cases "displayType = Some ''bubble'' \<and> (maxValue = None \<or> minValue = None)")
      case True
      then show ?thesis using a by (auto simp add: finish_create_def)
    next
      case False
      then have e: "finish_create roll name maxValue minValue reset displayType live s
          = and_then (evaluate_cvar roll s (str_opt maxValue)) (\<lambda>v s1.
              Return () (s1\<lparr>custom := AList.update name
                \<lparr>cc_value = v, cc_max = maxValue, cc_min = minValue, cc_reset = ?tag,
                 cc_type = displayType, cc_live = live\<rparr> (custom s1)\<rparr>))"
        using a by (auto simp add: finish_create_def Let_def)
      show ?thesis unfolding e by (rule main)
    qed
  qed
qed

lemma create_consumable_scopes:
  "set (scopes (state_of (create_consumable roll s name maxValue minValue reset displayType live)))
     \<subseteq> set (scopes s) \<union> {(name, None), (name, Some ''short''), (name, Some ''long''),
                            (name, Some ''none'')}"
proof -
  let ?X = "{(name, None), (name, Some ''short''), (name, Some ''long''), (name, Some ''none'')}"
  let ?R = "\<lambda>t. set (scopes t) \<subseteq> set (scopes s) \<union> ?X"
  show ?thesis
  proof (cases "reset \<in> {Some ''short'', Some ''long'', Some ''none''} \<or> reset = None")
    case False
    then show ?thesis by (auto simp add: create_consumable_def)
  next
    case ok: True
    define tag where "tag = (if truthy reset \<and> maxValue \<noteq> None then reset else None)"
    have "tag \<in> {None, Some ''short'', Some ''long'', Some ''none''}"
      using ok by (auto simp add: tag_def)
    then have sub: "insert (name, tag) (set (scopes s)) \<subseteq> set (scopes s) \<union> ?X" by auto
    have fin: "?R (state_of (finish_create roll name maxValue minValue reset displayType live t))"
      if "scopes t = scopes s" for t
    proof -
      have "set (scopes (state_of (finish_create roll name maxValue minValue reset displayType live t)))
          \<subseteq> insert (name, tag) (set (scopes s))"
        using finish_create_scopes [of roll name maxValue minValue reset displayType live t] that
        unfolding tag_def by simp
      then show ?thesis using sub by (rule subset_trans)
    qed
    show ?thesis
    proof (cases "\<exists>c \<in> set ''.$''. c \<in> set name")
      case True
      then show ?thesis using ok by (auto simp add: create_consumable_def)
    next
      case name_ok: False
      show ?thesis
      proof (cases "maxValue = None \<or> minValue = None")
        case True
        then show ?thesis using ok name_ok fin [of s]
          by (auto simp add: create_consumable_def split: option.splits)
      next
        case False
        then obtain mx mn where b: "maxValue = Some mx" "minValue = Some mn" by auto
        have "?R (state_of (and_then (evaluate_cvar roll s mx) (\<lambda>maxV s1.
             and_then (evaluate_cvar roll s1 mn) (\<lambda>minV s2.
               if \<not> (maxV \<ge> minV)
               then Raises (InvalidArgument ''Max value is less than min value.'') s2
               else if maxV = 0
               then Raises (InvalidArgument ''Max value cannot be 0.'') s2
               else finish_create roll name maxValue minValue reset displayType live s2))))"
        proof (rule and_then_state [where R = ?R])
          show "?R (state_of (evaluate_cvar roll s mx))"
            using scopes_of_core [OF evaluate_cvar_core [of roll s mx]] by auto
        next
          fix maxV s1
          assume "evaluate_cvar roll s mx = Return maxV s1"
          then have s1: "scopes s1 = scopes s"
            using scopes_of_core [OF evaluate_cvar_core [of roll s mx]] by simp
          show "?R (state_of (and_then (evaluate_cvar roll s1 mn) (\<lambda>minV s2.
               if \<not> (maxV \<ge> minV)
               then Raises (InvalidArgument ''Max value is less than min value.'') s2
               else if maxV = 0
               then Raises (InvalidArgument ''Max value cannot be 0.'') s2
               else finish_create roll name maxValue minValue reset displayType live s2)))"
          proof (rule and_then_state [where R = ?R])
            show "?R (state_of (evaluate_cvar roll s1 mn))"
              using scopes_of_core [OF evaluate_cvar_core [of roll s1 mn]] s1 by auto
          next
            fix minV s2
            assume "evaluate_cvar roll s1 mn = Return minV s2"
            then have s2: "scopes s2 = scopes s"
              using scopes_of_core [OF evaluate_cvar_core [of roll s1 mn]] s1 by simp
            show "?R (state_of (if \<not> (maxV \<ge> minV)
               then Raises (InvalidArgument ''Max value is less than min value.'') s2
               else if maxV = 0
               then Raises (InvalidArgument ''Max value cannot be 0.'') s2
               else finish_create roll name maxValue minValue reset displayType live s2))"
              using fin [OF s2] s2 by auto
          qed
        qed
        note main = this
        have e: "create_consumable roll s name maxValue minValue reset displayType live
            = and_then (evaluate_cvar roll s mx) (\<lambda>maxV s1.
              and_then (evaluate_cvar roll s1 mn) (\<lambda>minV s2.
               if \<not> (maxV \<ge> minV)
               then Raises (InvalidArgument ''Max value is less than min value.'') s2
               else if maxV = 0
               then Raises (InvalidArgument ''Max value cannot be 0.'') s2
               else finish_create roll name maxValue minValue reset displayType live s2))"
          using ok name_ok b by (auto simp add: create_consumable_def)
        show ?thesis unfolding e by (rule main)
      qed
    qed
  qed
qed

lemma no_hp_counter_fresh: "custom s = [] \<Longrightarrow> no_hp_counter s"
  by (simp add: no_hp_counter_def scopes_def)

lemma no_hp_counter_scopes: "scopes s' = scopes s \<Longrightarrow> no_hp_counter s' = no_hp_counter s"
  by (simp add: no_hp_counter_def)

lemma create_consumable_no_hp_counter:
  assumes "no_hp_counter s"
  shows "no_hp_counter (state_of (create_consumable roll s name maxValue minValue reset displayType live))"
proof -
  have "snd ` set (scopes (state_of (create_consumable roll s name maxValue minValue reset displayType live)))
      \<subseteq> snd ` set (scopes s) \<union> {None, Some ''short'', Some ''long'', Some ''none''}"
    using create_consumable_scopes [of roll s name maxValue minValue reset displayType live]
    by (auto simp add: image_iff) 
  then show ?thesis using assms by (auto simp add: no_hp_counter_def)
qed

lemma no_hp_counter_kept:
  assumes "no_hp_counter s"
  shows "no_hp_counter (state_of (set_consumable roll s name v strict))"
    and "no_hp_counter (state_of (reset_consumable roll s name))"
    and "no_hp_counter (state_of (reset_custom roll s scope))"
    and "no_hp_counter (state_of (on_hp roll s))"
    and "no_hp_counter (state_of (set_hp roll s x))"
    and "no_hp_counter (state_of (reset_hp roll s))"
    and "no_hp_counter (set_temp_hp s x)"
    and "no_hp_counter (modify_hp s x ignore_temp)"
    and "no_hp_counter (state_of (set_remaining_slots s level y sync))"
    and "no_hp_counter (state_of (use_slot s level))"
    and "no_hp_counter (state_of (reset_spellslots s))"
    and "no_hp_counter (state_of (short_rest roll s))"
    and "no_hp_counter (state_of (long_rest roll s))"
  using assms by (simp_all add: no_hp_counter_def scopes_kept)

end
